theory Spec2Isabelle
  imports Main "HOL-Library.Word"
begin

unbundle bit_operations_syntax

section \<open>Shared vocabulary\<close>

text \<open>
  Both harnesses drive an opaque guest. The guest and everything it can touch (its linear
  memory, the system-interface session, the host's clock) is one state of type \<open>'w\<close>; an
  exported guest function is a function on that state which either fails or returns.
  The harness code is instrumented with a trace of the calls it makes, so that "how often
  is tick invoked" is a statement about a list.
\<close>

datatype event =
    EvSetMemory
  | EvInitialize
  | EvStartMain
  | EvOnTick
  | EvTick
  | EvYield
  | EvWait int
  | EvSpin int
  | EvTimer int
  | EvTimerStop
  | EvClose

text \<open>What JavaScript code throws: the built-in error classes the harness meets.\<close>

datatype thrown =
    Error string
  | TypeError string
  | RangeError string
  | QuotaExceededError
  | RuntimeError string

text \<open>The guest state together with the trace of calls made so far.\<close>

record 'w machine =
  world :: 'w
  trace :: "event list"

definition emit :: "event \<Rightarrow> 'w machine \<Rightarrow> 'w machine" where
  "emit e m = m\<lparr>trace := trace m @ [e]\<rparr>"

definition start_mains :: "event list \<Rightarrow> nat" where
  "start_mains es = length (filter (\<lambda>e. e = EvStartMain) es)"

section \<open>The JavaScript harness: Reactor (js-harness/src/index.ts)\<close>

text \<open>\<open>LoopResult\<close>: \<open>Idle = -1\<close>, \<open>Ready = 0\<close>; a value above 0 is a timer in ms.\<close>

definition Idle :: int where "Idle = -1"
definition Ready :: int where "Ready = 0"

text \<open>
  An export of the instance as JavaScript sees it. An exported function is called with no
  arguments and throws or returns a number (ignored for the two \<open>void\<close> entry points).
\<close>

datatype 'w export_val =
    ExFunction "'w \<Rightarrow> (thrown + int) \<times> 'w"
  | ExMemory
  | ExGlobal
  | ExTable

type_synonym 'w instance_exports = "string \<Rightarrow> 'w export_val option"

record 'w GoReactorExports =
  memory_export :: "'w export_val option"
  wasm_initialize :: "'w \<Rightarrow> (thrown + int) \<times> 'w"
  go_start_main :: "'w \<Rightarrow> (thrown + int) \<times> 'w"
  go_tick :: "'w \<Rightarrow> (thrown + int) \<times> 'w"

text \<open>
  \<open>ReactorOptions\<close>: the two optional callbacks (\<open>wasiImports\<close> is consumed by the
  instantiation, \<open>debug\<close> only switches console logging; both are left out).
\<close>

record 'w ReactorOptions =
  setMemory :: "('w export_val option \<Rightarrow> 'w \<Rightarrow> thrown option \<times> 'w) option"
  opt_onTick :: "('w \<Rightarrow> thrown option \<times> 'w) option"

text \<open>The class \<open>Reactor\<close>.\<close>

record 'w Reactor =
  exports :: "'w GoReactorExports"
  mainStarted :: bool
  onTick :: "('w \<Rightarrow> thrown option \<times> 'w) option"

type_synonym 'w WaitCallback = "int \<Rightarrow> 'w \<Rightarrow> thrown option \<times> 'w"

definition new_Reactor :: "'w GoReactorExports \<Rightarrow> 'w ReactorOptions \<Rightarrow> 'w Reactor" where
  "new_Reactor ex opts = \<lparr>exports = ex, mainStarted = False, onTick = opt_onTick opts\<rparr>"

text \<open>
  \<open>createReactor\<close>, from the outcome of \<open>WebAssembly.instantiate\<close> on: the three
  \<open>typeof ... !== "function"\<close> checks in the source's order, then \<open>setMemory\<close>, then
  \<open>_initialize\<close>. \<open>exports.memory\<close> is handed to \<open>setMemory\<close> as it is, unchecked.
\<close>

definition is_function :: "'w export_val option \<Rightarrow> bool" where
  "is_function v = (case v of Some (ExFunction f) \<Rightarrow> True | _ \<Rightarrow> False)"

definition the_function :: "'w export_val option \<Rightarrow> 'w \<Rightarrow> (thrown + int) \<times> 'w" where
  "the_function v =
     (case v of Some (ExFunction f) \<Rightarrow> f
      | _ \<Rightarrow> (\<lambda>w. (Inl (TypeError ''not a function''), w)))"

definition createReactor ::
  "(thrown + 'w instance_exports) \<Rightarrow> 'w ReactorOptions \<Rightarrow> 'w machine
     \<Rightarrow> (thrown + 'w Reactor) \<times> 'w machine" where
  "createReactor instantiated opts m =
     (case instantiated of
        Inl e \<Rightarrow> (Inl e, m)
      | Inr xs \<Rightarrow>
          if \<not> is_function (xs ''_initialize'') then
            (Inl (Error ''Module does not export _initialize (not a WASI reactor?)''), m)
          else if \<not> is_function (xs ''go_start_main'') then
            (Inl (Error
              ''Module does not export go_start_main (not built with modified Go runtime?)''), m)
          else if \<not> is_function (xs ''go_tick'') then
            (Inl (Error
              ''Module does not export go_tick (not built with modified Go runtime?)''), m)
          else
            (let ex = \<lparr>memory_export = xs ''memory'',
                       wasm_initialize = the_function (xs ''_initialize''),
                       go_start_main = the_function (xs ''go_start_main''),
                       go_tick = the_function (xs ''go_tick'')\<rparr>;
                 (failed, m1) =
                   (case setMemory opts of
                      None \<Rightarrow> (None, m)
                    | Some f \<Rightarrow>
                        (case f (memory_export ex) (world m) of
                           (res, w) \<Rightarrow> (res, (emit EvSetMemory m)\<lparr>world := w\<rparr>)))
             in case failed of
                  Some e \<Rightarrow> (Inl e, m1)
                | None \<Rightarrow>
                    (case wasm_initialize ex (world m1) of
                       (Inl e, w) \<Rightarrow> (Inl e, (emit EvInitialize m1)\<lparr>world := w\<rparr>)
                     | (Inr u, w) \<Rightarrow>
                         (Inr (new_Reactor ex opts), (emit EvInitialize m1)\<lparr>world := w\<rparr>))))"

text \<open>\<open>startMain\<close>: returns at once when \<open>mainStarted\<close>; the flag is set after the call returned.\<close>

definition startMain ::
  "'w Reactor \<Rightarrow> 'w machine \<Rightarrow> (thrown + unit) \<times> 'w Reactor \<times> 'w machine" where
  "startMain r m =
     (if mainStarted r then (Inr (), r, m)
      else (case go_start_main (exports r) (world m) of
              (Inl e, w) \<Rightarrow> (Inl e, r, (emit EvStartMain m)\<lparr>world := w\<rparr>)
            | (Inr u, w) \<Rightarrow>
                (Inr (), r\<lparr>mainStarted := True\<rparr>, (emit EvStartMain m)\<lparr>world := w\<rparr>)))"

definition loopOnce :: "'w Reactor \<Rightarrow> 'w machine \<Rightarrow> (thrown + int) \<times> 'w machine" where
  "loopOnce r m =
     (case go_tick (exports r) (world m) of
        (res, w) \<Rightarrow> (res, (emit EvTick m)\<lparr>world := w\<rparr>))"

text \<open>\<open>this.onTick?.()\<close>: nothing happens when no callback was given.\<close>

definition call_onTick :: "'w Reactor \<Rightarrow> 'w machine \<Rightarrow> (thrown + unit) \<times> 'w machine" where
  "call_onTick r m =
     (case onTick r of
        None \<Rightarrow> (Inr (), m)
      | Some f \<Rightarrow>
          (case f (world m) of
             (Some e, w) \<Rightarrow> (Inl e, (emit EvOnTick m)\<lparr>world := w\<rparr>)
           | (None, w) \<Rightarrow> (Inr (), (emit EvOnTick m)\<lparr>world := w\<rparr>)))"

text \<open>
  What a callback that returns normally does to the guest state, and what it adds to the
  trace: nothing when there is none.
\<close>

definition onTick_world :: "'w Reactor \<Rightarrow> 'w \<Rightarrow> 'w" where
  "onTick_world r w = (case onTick r of None \<Rightarrow> w | Some f \<Rightarrow> snd (f w))"

definition onTick_events :: "'w Reactor \<Rightarrow> event list" where
  "onTick_events r = (case onTick r of None \<Rightarrow> [] | Some f \<Rightarrow> [EvOnTick])"

text \<open>
  The \<open>while (true)\<close> of \<open>runSync\<close>, one iteration per unit of fuel; \<open>None\<close> is "still
  running when the fuel ran out". The busy wait on \<open>Date.now()\<close> is the event \<open>EvSpin\<close>.
\<close>

fun runSync_loop ::
  "nat \<Rightarrow> 'w Reactor \<Rightarrow> 'w machine \<Rightarrow> ((thrown + unit) \<times> 'w machine) option" where
  "runSync_loop 0 r m = None"
| "runSync_loop (Suc n) r m =
     (case call_onTick r m of
        (Inl e, m1) \<Rightarrow> Some (Inl e, m1)
      | (Inr u, m1) \<Rightarrow>
          (case loopOnce r m1 of
             (Inl e, m2) \<Rightarrow> Some (Inl e, m2)
           | (Inr result, m2) \<Rightarrow>
               if result = Idle then Some (Inr (), m2)
               else if result > 0 then runSync_loop n r (emit (EvSpin result) m2)
               else runSync_loop n r m2))"

definition runSync ::
  "nat \<Rightarrow> 'w Reactor \<Rightarrow> 'w machine \<Rightarrow> ((thrown + unit) \<times> 'w Reactor \<times> 'w machine) option" where
  "runSync fuel r m =
     (case startMain r m of
        (Inl e, r1, m1) \<Rightarrow> Some (Inl e, r1, m1)
      | (Inr u, r1, m1) \<Rightarrow> map_option (\<lambda>(res, m2). (res, r1, m2)) (runSync_loop fuel r1 m1))"

text \<open>
  The loop of \<open>runAsync\<close>. \<open>await Promise.resolve()\<close> is the event \<open>EvYield\<close>,
  \<open>await wait(result)\<close> the event \<open>EvWait result\<close> followed by the callback, whose
  promise may reject.
\<close>

fun runAsync_loop ::
  "nat \<Rightarrow> 'w WaitCallback \<Rightarrow> 'w Reactor \<Rightarrow> 'w machine
     \<Rightarrow> ((thrown + unit) \<times> 'w machine) option" where
  "runAsync_loop 0 wait r m = None"
| "runAsync_loop (Suc n) wait r m =
     (case call_onTick r m of
        (Inl e, m1) \<Rightarrow> Some (Inl e, m1)
      | (Inr u, m1) \<Rightarrow>
          (case loopOnce r m1 of
             (Inl e, m2) \<Rightarrow> Some (Inl e, m2)
           | (Inr result, m2) \<Rightarrow>
               if result = Idle then Some (Inr (), m2)
               else if result = Ready then runAsync_loop n wait r (emit EvYield m2)
               else if result > 0 then
                 (case wait result (world m2) of
                    (Some e, w) \<Rightarrow> Some (Inl e, (emit (EvWait result) m2)\<lparr>world := w\<rparr>)
                  | (None, w) \<Rightarrow>
                      runAsync_loop n wait r ((emit (EvWait result) m2)\<lparr>world := w\<rparr>))
               else runAsync_loop n wait r m2))"

definition runAsync ::
  "nat \<Rightarrow> 'w WaitCallback \<Rightarrow> 'w Reactor \<Rightarrow> 'w machine
     \<Rightarrow> ((thrown + unit) \<times> 'w Reactor \<times> 'w machine) option" where
  "runAsync fuel wait r m =
     (case startMain r m of
        (Inl e, r1, m1) \<Rightarrow> Some (Inl e, r1, m1)
      | (Inr u, r1, m1) \<Rightarrow>
          map_option (\<lambda>(res, m2). (res, r1, m2)) (runAsync_loop fuel wait r1 m1))"

section \<open>The Go harness: Reactor (wazero-go/reactor.go)\<close>

text \<open>
  Go's \<open>error\<close> values as the harness builds them: \<open>errors.New\<close>, \<open>fmt.Errorf("...: %w")\<close>
  around a cause, the two errors of a done context, and whatever a call into the guest or
  the runtime returned. A \<open>nil\<close> error is \<open>None\<close>. A run-time panic is not an error value:
  it unwinds through \<open>Run\<close> unwrapped.
\<close>

datatype go_error =
    ErrorsNew string
  | Errorf string go_error
  | CallFailed string
  | Canceled
  | DeadlineExceeded

datatype 'a outcome = Returned 'a | Panicked string

type_synonym 'w api_Function = "'w \<Rightarrow> (go_error + 64 word list) \<times> 'w"

text \<open>
  \<open>api.Module\<close>: \<open>ExportedFunction name\<close> is \<open>nil\<close> when no function has that name;
  \<open>ExportedMemory name\<close> likewise for memories (here: whether there is one).
\<close>

record 'w api_Module =
  ExportedFunction :: "string \<Rightarrow> 'w api_Function option"
  ExportedMemory :: "string \<Rightarrow> bool"

record 'w Reactor_go =
  initialize :: "'w api_Function"
  goStartMain :: "'w api_Function"
  goTick :: "'w api_Function"

text \<open>
  The \<open>context.Context\<close> the caller passes: \<open>ctx_done\<close> is the non-blocking
  \<open>select { case <-ctx.Done(): ... default: }\<close> giving \<open>ctx.Err()\<close> when the context is
  done; \<open>timer_select ms\<close> is the blocking select between \<open>ctx.Done()\<close> and a timer of
  \<open>ms\<close> milliseconds, giving \<open>ctx.Err()\<close> when the context won.
\<close>

record 'w Context =
  ctx_done :: "'w \<Rightarrow> go_error option"
  timer_select :: "int \<Rightarrow> 'w \<Rightarrow> go_error option \<times> 'w"

type_synonym LoopResult = "32 word"

definition LoopIdle :: LoopResult where "LoopIdle = -1"
definition LoopReady :: LoopResult where "LoopReady = 0"

text \<open>
  \<open>NewReactor\<close> from the export lookups on; the three calls before them
  (\<open>wasi_snapshot_preview1.Instantiate\<close>, \<open>CompileModule\<close>, \<open>InstantiateModule\<close>) are given by
  their outcomes.
\<close>

definition NewReactor ::
  "go_error option \<Rightarrow> go_error option \<Rightarrow> (go_error + 'w api_Module) \<Rightarrow> 'w machine
     \<Rightarrow> (go_error + 'w Reactor_go) \<times> 'w machine" where
  "NewReactor wasi_err compile_err instantiated m =
     (case wasi_err of
        Some e \<Rightarrow> (Inl (Errorf ''instantiate WASI'' e), m)
      | None \<Rightarrow>
     (case compile_err of
        Some e \<Rightarrow> (Inl (Errorf ''compile module'' e), m)
      | None \<Rightarrow>
     (case instantiated of
        Inl e \<Rightarrow> (Inl (Errorf ''instantiate module'' e), m)
      | Inr md \<Rightarrow>
     (case ExportedFunction md ''_initialize'' of
        None \<Rightarrow>
          (Inl (ErrorsNew ''module does not export _initialize (not a WASI reactor?)''),
           emit EvClose m)
      | Some ini \<Rightarrow>
     (case ExportedFunction md ''go_start_main'' of
        None \<Rightarrow>
          (Inl (ErrorsNew
             ''module does not export go_start_main (not built with modified Go runtime?)''),
           emit EvClose m)
      | Some sm \<Rightarrow>
     (case ExportedFunction md ''go_tick'' of
        None \<Rightarrow>
          (Inl (ErrorsNew
             ''module does not export go_tick (not built with modified Go runtime?)''),
           emit EvClose m)
      | Some tk \<Rightarrow>
     (case ini (world m) of
        (Inl e, w) \<Rightarrow>
          (Inl (Errorf ''call _initialize'' e), emit EvClose ((emit EvInitialize m)\<lparr>world := w\<rparr>))
      | (Inr res, w) \<Rightarrow>
          (Inr \<lparr>initialize = ini, goStartMain = sm, goTick = tk\<rparr>,
           (emit EvInitialize m)\<lparr>world := w\<rparr>))))))))"

text \<open>\<open>StartMain\<close> calls \<open>go_start_main\<close> and returns its error; it keeps no flag.\<close>

definition StartMain :: "'w Reactor_go \<Rightarrow> 'w machine \<Rightarrow> go_error option \<times> 'w machine" where
  "StartMain r m =
     (case goStartMain r (world m) of
        (Inl e, w) \<Rightarrow> (Some e, (emit EvStartMain m)\<lparr>world := w\<rparr>)
      | (Inr res, w) \<Rightarrow> (None, (emit EvStartMain m)\<lparr>world := w\<rparr>))"

text \<open>
  \<open>LoopOnce\<close>: \<open>LoopResult(int32(results[0]))\<close> keeps the low 32 bits; indexing an empty
  result slice panics.
\<close>

definition LoopOnce ::
  "'w Reactor_go \<Rightarrow> 'w machine \<Rightarrow> (go_error + LoopResult) outcome \<times> 'w machine" where
  "LoopOnce r m =
     (case goTick r (world m) of
        (Inl e, w) \<Rightarrow> (Returned (Inl e), (emit EvTick m)\<lparr>world := w\<rparr>)
      | (Inr results, w) \<Rightarrow>
          (case results of
             [] \<Rightarrow> (Panicked ''runtime error: index out of range [0] with length 0'',
                    (emit EvTick m)\<lparr>world := w\<rparr>)
           | x # rest \<Rightarrow> (Returned (Inr (ucast x)), (emit EvTick m)\<lparr>world := w\<rparr>)))"

text \<open>
  The \<open>for\<close> loop shared by \<open>Run\<close> and \<open>RunWithCallback\<close> (the latter with
  \<open>Some onTick\<close>, or \<open>None\<close> for a \<open>nil\<close> callback; \<open>Run\<close> has no callback). The
  \<open>switch\<close> has three cases and no default: a result matching none of them leaves the
  switch and the loop goes round again.
\<close>

fun Run_loop ::
  "nat \<Rightarrow> 'w Context \<Rightarrow> ('w \<Rightarrow> 'w) option \<Rightarrow> 'w Reactor_go \<Rightarrow> 'w machine
     \<Rightarrow> (go_error option outcome \<times> 'w machine) option" where
  "Run_loop 0 ctx cb r m = None"
| "Run_loop (Suc n) ctx cb r m =
     (case ctx_done ctx (world m) of
        Some e \<Rightarrow> Some (Returned (Some e), m)
      | None \<Rightarrow>
          (let m0 = (case cb of None \<Rightarrow> m
                     | Some f \<Rightarrow> (emit EvOnTick m)\<lparr>world := f (world m)\<rparr>)
           in case LoopOnce r m0 of
                (Panicked p, m1) \<Rightarrow> Some (Panicked p, m1)
              | (Returned (Inl e), m1) \<Rightarrow> Some (Returned (Some (Errorf ''loop once'' e)), m1)
              | (Returned (Inr result), m1) \<Rightarrow>
                  if result = LoopIdle then Some (Returned None, m1)
                  else if result = LoopReady then Run_loop n ctx cb r m1
                  else if 0 < sint result then
                    (case timer_select ctx (sint result) (world m1) of
                       (Some e, w) \<Rightarrow>
                         Some (Returned (Some e),
                               emit EvTimerStop ((emit (EvTimer (sint result)) m1)\<lparr>world := w\<rparr>))
                     | (None, w) \<Rightarrow>
                         Run_loop n ctx cb r ((emit (EvTimer (sint result)) m1)\<lparr>world := w\<rparr>))
                  else Run_loop n ctx cb r m1))"

definition Run ::
  "nat \<Rightarrow> 'w Context \<Rightarrow> 'w Reactor_go \<Rightarrow> 'w machine
     \<Rightarrow> (go_error option outcome \<times> 'w machine) option" where
  "Run fuel ctx r m =
     (case StartMain r m of
        (Some e, m1) \<Rightarrow> Some (Returned (Some (Errorf ''start main'' e)), m1)
      | (None, m1) \<Rightarrow> Run_loop fuel ctx None r m1)"

definition RunWithCallback ::
  "nat \<Rightarrow> 'w Context \<Rightarrow> ('w \<Rightarrow> 'w) option \<Rightarrow> 'w Reactor_go \<Rightarrow> 'w machine
     \<Rightarrow> (go_error option outcome \<times> 'w machine) option" where
  "RunWithCallback fuel ctx cb r m =
     (case StartMain r m of
        (Some e, m1) \<Rightarrow> Some (Returned (Some (Errorf ''start main'' e)), m1)
      | (None, m1) \<Rightarrow> Run_loop fuel ctx cb r m1)"

text \<open>The machine after \<open>if onTick != nil { onTick() }\<close>, as the loop has it.\<close>

definition call_onTick_go :: "('w \<Rightarrow> 'w) option \<Rightarrow> 'w machine \<Rightarrow> 'w machine" where
  "call_onTick_go cb m =
     (case cb of None \<Rightarrow> m | Some f \<Rightarrow> (emit EvOnTick m)\<lparr>world := f (world m)\<rparr>)"

section \<open>Scripted guests\<close>

text \<open>
  A guest for concrete runs: its state is the list of results its next tick invocations
  will return; a tick with nothing left traps.
\<close>

definition script_tick :: "int list \<Rightarrow> (thrown + int) \<times> int list" where
  "script_tick w =
     (case w of [] \<Rightarrow> (Inl (RuntimeError ''unreachable''), [])
      | x # xs \<Rightarrow> (Inr x, xs))"

definition script_void :: "int list \<Rightarrow> (thrown + int) \<times> int list" where
  "script_void w = (Inr 0, w)"

definition script_exports :: "int list GoReactorExports" where
  "script_exports =
     \<lparr>memory_export = Some ExMemory, wasm_initialize = script_void,
      go_start_main = script_void, go_tick = script_tick\<rparr>"

definition script_reactor :: "int list Reactor" where
  "script_reactor = \<lparr>exports = script_exports, mainStarted = False, onTick = None\<rparr>"

definition watched_reactor :: "int list Reactor" where
  "watched_reactor = script_reactor\<lparr>onTick := Some (\<lambda>w. (None, w))\<rparr>"

definition timeout_wait :: "int list WaitCallback" where
  "timeout_wait ms w = (None, w)"

definition start_machine :: "'w \<Rightarrow> 'w machine" where
  "start_machine w = \<lparr>world = w, trace = []\<rparr>"

definition script_tick_go :: "int list api_Function" where
  "script_tick_go w =
     (case w of [] \<Rightarrow> (Inl (CallFailed ''wasm error: unreachable''), [])
      | x # xs \<Rightarrow> (Inr [ucast (word_of_int x :: 32 word)], xs))"

definition script_void_go :: "int list api_Function" where
  "script_void_go w = (Inr [], w)"

definition script_reactor_go :: "int list Reactor_go" where
  "script_reactor_go =
     \<lparr>initialize = script_void_go, goStartMain = script_void_go, goTick = script_tick_go\<rparr>"

definition background :: "int list Context" where
  "background = \<lparr>ctx_done = (\<lambda>w. None), timer_select = (\<lambda>ms w. (None, w))\<rparr>"

text \<open>A module with the three entry points and no memory export, for either harness.\<close>

definition no_memory_exports :: "int list instance_exports" where
  "no_memory_exports name =
     (if name = ''_initialize'' then Some (ExFunction script_void)
      else if name = ''go_start_main'' then Some (ExFunction script_void)
      else if name = ''go_tick'' then Some (ExFunction script_tick)
      else None)"

definition no_memory_module :: "int list api_Module" where
  "no_memory_module =
     \<lparr>ExportedFunction = (\<lambda>name.
        if name = ''_initialize'' then Some script_void_go
        else if name = ''go_start_main'' then Some script_void_go
        else if name = ''go_tick'' then Some script_tick_go
        else None),
      ExportedMemory = (\<lambda>name. False)\<rparr>"

definition forward_memory :: "int list ReactorOptions" where
  "forward_memory = \<lparr>setMemory = Some (\<lambda>mem w. (None, w)), opt_onTick = None\<rparr>"

section \<open>The minimal WASI of the JavaScript harness (createMinimalWASI)\<close>

subsection \<open>JavaScript strings, TextEncoder and TextDecoder\<close>

text \<open>
  A JavaScript string is a sequence of UTF-16 code units. \<open>TextEncoder.encode\<close> first
  reads it as scalar values (a surrogate pair is one value, a lone surrogate becomes
  U+FFFD) and then writes each value in UTF-8.
\<close>

type_synonym bytes = "8 word list"
type_synonym js_string = "16 word list"

definition js :: "string \<Rightarrow> js_string" where
  "js s = map (\<lambda>c. of_nat (of_char c)) s"

definition is_high :: "16 word \<Rightarrow> bool" where
  "is_high u = (0xD800 \<le> unat u \<and> unat u \<le> 0xDBFF)"

definition is_low :: "16 word \<Rightarrow> bool" where
  "is_low u = (0xDC00 \<le> unat u \<and> unat u \<le> 0xDFFF)"

definition lone :: "16 word \<Rightarrow> nat" where
  "lone u = (if is_high u \<or> is_low u then 0xFFFD else unat u)"

fun scalar_values :: "js_string \<Rightarrow> nat list" where
  "scalar_values [] = []"
| "scalar_values [u] = [lone u]"
| "scalar_values (u # l # rest) =
     (if is_high u \<and> is_low l
      then (0x10000 + (unat u - 0xD800) * 0x400 + (unat l - 0xDC00)) # scalar_values rest
      else lone u # scalar_values (l # rest))"

definition utf8_of :: "nat \<Rightarrow> bytes" where
  "utf8_of cp =
     (if cp < 0x80 then [of_nat cp]
      else if cp < 0x800 then [of_nat (0xC0 + cp div 64), of_nat (0x80 + cp mod 64)]
      else if cp < 0x10000 then
        [of_nat (0xE0 + cp div 4096), of_nat (0x80 + cp div 64 mod 64), of_nat (0x80 + cp mod 64)]
      else
        [of_nat (0xF0 + cp div 262144), of_nat (0x80 + cp div 4096 mod 64),
         of_nat (0x80 + cp div 64 mod 64), of_nat (0x80 + cp mod 64)])"

definition encode :: "js_string \<Rightarrow> bytes" where
  "encode s = concat (map utf8_of (scalar_values s))"

text \<open>
  \<open>TextDecoder.decode\<close> (UTF-8, not fatal, BOM not ignored): the decoder of the Encoding
  Standard, with the code point under construction, the number of continuation bytes
  still needed and the bounds on the next byte as its state. A malformed sequence gives
  U+FFFD, and the byte that broke a sequence is read again as a first byte. One leading
  U+FEFF of the output is dropped.
\<close>

fun utf8_decode :: "nat \<Rightarrow> nat \<Rightarrow> nat \<Rightarrow> nat \<Rightarrow> bytes \<Rightarrow> nat list" where
  "utf8_decode cp needed lower upper [] = (if needed \<noteq> 0 then [0xFFFD] else [])"
| "utf8_decode cp needed lower upper (b # bs) =
     (if needed \<noteq> 0 \<and> lower \<le> unat b \<and> unat b \<le> upper then
        (if needed = 1 then (cp * 64 + unat b mod 64) # utf8_decode 0 0 0x80 0xBF bs
         else utf8_decode (cp * 64 + unat b mod 64) (needed - 1) 0x80 0xBF bs)
      else
        (if needed \<noteq> 0 then [0xFFFD] else []) @
        (if unat b \<le> 0x7F then unat b # utf8_decode 0 0 0x80 0xBF bs
         else if 0xC2 \<le> unat b \<and> unat b \<le> 0xDF then
           utf8_decode (unat b mod 32) 1 0x80 0xBF bs
         else if 0xE0 \<le> unat b \<and> unat b \<le> 0xEF then
           utf8_decode (unat b mod 16) 2
             (if unat b = 0xE0 then 0xA0 else 0x80) (if unat b = 0xED then 0x9F else 0xBF) bs
         else if 0xF0 \<le> unat b \<and> unat b \<le> 0xF4 then
           utf8_decode (unat b mod 8) 3
             (if unat b = 0xF0 then 0x90 else 0x80) (if unat b = 0xF4 then 0x8F else 0xBF) bs
         else 0xFFFD # utf8_decode 0 0 0x80 0xBF bs))"

definition utf16_of :: "nat \<Rightarrow> js_string" where
  "utf16_of cp =
     (if cp < 0x10000 then [of_nat cp]
      else [of_nat (0xD800 + (cp - 0x10000) div 0x400),
            of_nat (0xDC00 + (cp - 0x10000) mod 0x400)])"

definition strip_bom :: "nat list \<Rightarrow> nat list" where
  "strip_bom cps = (case cps of [] \<Rightarrow> [] | c # rest \<Rightarrow> if c = 0xFEFF then rest else cps)"

definition decode :: "bytes \<Rightarrow> js_string" where
  "decode bs = concat (map utf16_of (strip_bom (utf8_decode 0 0 0x80 0xBF bs)))"

text \<open>A number in a template literal: its decimal digits, with a sign when negative.\<close>

fun show_nat :: "nat \<Rightarrow> string" where
  "show_nat n =
     (if n < 10 then [char_of (48 + n)] else show_nat (n div 10) @ [char_of (48 + n mod 10)])"

definition show_int :: "int \<Rightarrow> string" where
  "show_int i = (if i < 0 then CHR ''-'' # show_nat (nat (- i)) else show_nat (nat i))"

subsection \<open>DataView and Uint8Array over the memory buffer\<close>

text \<open>
  Offsets and values are JavaScript numbers holding integers. A \<open>DataView\<close> access throws
  a \<open>RangeError\<close> when the offset is negative or the access would pass the end of the
  buffer; integers are stored little-endian, reduced modulo their width.
\<close>

definition in_view :: "int \<Rightarrow> nat \<Rightarrow> bytes \<Rightarrow> bool" where
  "in_view off n buf = (0 \<le> off \<and> nat off + n \<le> length buf)"

definition le_bytes :: "nat \<Rightarrow> int \<Rightarrow> bytes" where
  "le_bytes n v = map (\<lambda>k. word_of_int (v div 256 ^ k)) [0..<n]"

definition le_value :: "bytes \<Rightarrow> int" where
  "le_value bs = foldr (\<lambda>b acc. uint b + 256 * acc) bs 0"

definition store :: "nat \<Rightarrow> bytes \<Rightarrow> bytes \<Rightarrow> bytes" where
  "store off bs buf = take off buf @ bs @ drop (off + length bs) buf"

definition out_of_bounds :: thrown where
  "out_of_bounds = RangeError ''Offset is outside the bounds of the DataView''"

definition setUint :: "nat \<Rightarrow> int \<Rightarrow> int \<Rightarrow> bytes \<Rightarrow> thrown + bytes" where
  "setUint n off v buf =
     (if in_view off n buf then Inr (store (nat off) (le_bytes n v) buf) else Inl out_of_bounds)"

definition getUint :: "nat \<Rightarrow> int \<Rightarrow> bytes \<Rightarrow> thrown + int" where
  "getUint n off buf =
     (if in_view off n buf then Inr (le_value (take n (drop (nat off) buf)))
      else Inl out_of_bounds)"

abbreviation "setUint8 \<equiv> setUint 1"
abbreviation "setUint16 \<equiv> setUint 2"
abbreviation "setUint32 \<equiv> setUint 4"
abbreviation "setBigUint64 \<equiv> setUint 8"
abbreviation "getUint32 \<equiv> getUint 4"

text \<open>
  \<open>Uint8Array.prototype.slice\<close> copies; a negative bound counts from the end and both
  bounds are clamped to the array. \<open>set\<close> throws when the source does not fit. An indexed
  assignment outside the array does nothing.
\<close>

definition clamp_index :: "int \<Rightarrow> nat \<Rightarrow> nat" where
  "clamp_index i len = (if i < 0 then nat (max (int len + i) 0) else nat (min i (int len)))"

definition slice :: "int \<Rightarrow> int \<Rightarrow> bytes \<Rightarrow> bytes" where
  "slice start fin buf =
     (let k = clamp_index start (length buf); final = clamp_index fin (length buf)
      in take (final - k) (drop k buf))"

definition u8_set :: "bytes \<Rightarrow> int \<Rightarrow> bytes \<Rightarrow> thrown + bytes" where
  "u8_set src off buf =
     (if off < 0 \<or> int (length src) + off > int (length buf)
      then Inl (RangeError ''offset is out of bounds'')
      else Inr (store (nat off) src buf))"

definition u8_assign :: "int \<Rightarrow> 8 word \<Rightarrow> bytes \<Rightarrow> bytes" where
  "u8_assign i v buf = (if 0 \<le> i \<and> i < int (length buf) then buf[nat i := v] else buf)"

text \<open>
  \<open>crypto.getRandomValues\<close> fills the array it is given from the entropy source
  (\<open>entropy n\<close>: the next \<open>n\<close> random bytes) and refuses more than 65536 bytes; the
  result is that same array, filled.
\<close>

definition getRandomValues :: "(nat \<Rightarrow> bytes) \<Rightarrow> bytes \<Rightarrow> thrown + bytes" where
  "getRandomValues entropy arr =
     (if length arr > 65536 then Inl QuotaExceededError
      else Inr (entropy (length arr)))"

subsection \<open>The session and its handlers\<close>

text \<open>
  The closure of \<open>createMinimalWASI\<close>: the variable \<open>memory\<close> (\<open>None\<close> while it is
  \<open>null\<close>, or after \<open>setMemory(undefined)\<close>; otherwise the current contents of
  \<open>memory.buffer\<close>, fetched anew by every handler), the argument vector, the
  \<open>KEY=VALUE\<close> strings, and what the two sinks have been called with.
\<close>

record session =
  memory :: "bytes option"
  args :: "js_string list"
  envArray :: "js_string list"
  stdout :: "js_string list"
  stderr :: "js_string list"

definition createMinimalWASI ::
  "js_string list option \<Rightarrow> (js_string \<times> js_string) list option \<Rightarrow> session" where
  "createMinimalWASI opt_args opt_env =
     \<lparr>memory = None,
      args = (case opt_args of None \<Rightarrow> [js ''reactor''] | Some a \<Rightarrow> a),
      envArray = map (\<lambda>(k, v). k @ js ''='' @ v) (case opt_env of None \<Rightarrow> [] | Some e \<Rightarrow> e),
      stdout = [], stderr = []\<rparr>"

definition setMemory_wasi :: "bytes option \<Rightarrow> session \<Rightarrow> session" where
  "setMemory_wasi mem s = s\<lparr>memory := mem\<rparr>"

definition null_memory :: thrown where
  "null_memory = TypeError ''Cannot read properties of null (reading 'buffer')''"

text \<open>
  A handler body that works on the buffer: it runs on \<open>memory!.buffer\<close> (a \<open>TypeError\<close>
  when \<open>memory\<close> is null) and leaves the buffer as it was when it returned or threw.
\<close>

definition on_buffer ::
  "(bytes \<Rightarrow> (thrown + int) \<times> bytes) \<Rightarrow> session \<Rightarrow> (thrown + int) \<times> session" where
  "on_buffer body s =
     (case memory s of
        None \<Rightarrow> (Inl null_memory, s)
      | Some buf \<Rightarrow> (case body buf of (res, buf') \<Rightarrow> (res, s\<lparr>memory := Some buf'\<rparr>)))"

text \<open>\<open>args_sizes_get\<close> and \<open>environ_sizes_get\<close> have the same body over their vector.\<close>

definition bufSize_of :: "js_string list \<Rightarrow> int" where
  "bufSize_of strs = (\<Sum>a\<leftarrow>strs. int (length (encode a)) + 1)"

definition sizes_get :: "js_string list \<Rightarrow> int \<Rightarrow> int \<Rightarrow> bytes \<Rightarrow> (thrown + int) \<times> bytes" where
  "sizes_get strs count_ptr buf_size_ptr buf =
     (case setUint32 count_ptr (int (length strs)) buf of
        Inl e \<Rightarrow> (Inl e, buf)
      | Inr buf1 \<Rightarrow>
          (case setUint32 buf_size_ptr (bufSize_of strs) buf1 of
             Inl e \<Rightarrow> (Inl e, buf1)
           | Inr buf2 \<Rightarrow> (Inr 0, buf2)))"

definition args_sizes_get :: "int \<Rightarrow> int \<Rightarrow> session \<Rightarrow> (thrown + int) \<times> session" where
  "args_sizes_get argc_ptr argv_buf_size_ptr s =
     on_buffer (sizes_get (args s) argc_ptr argv_buf_size_ptr) s"

definition environ_sizes_get :: "int \<Rightarrow> int \<Rightarrow> session \<Rightarrow> (thrown + int) \<times> session" where
  "environ_sizes_get environ_count_ptr environ_buf_size_ptr s =
     on_buffer (sizes_get (envArray s) environ_count_ptr environ_buf_size_ptr) s"

text \<open>
  \<open>args_get\<close> and \<open>environ_get\<close>: the \<open>for\<close> loop over the vector from index \<open>i\<close> on, with
  the running \<open>bufOffset\<close>. Each round stores the pointer, copies the encoded string with
  \<open>mem.set\<close> and assigns the terminating 0.
\<close>

fun strings_get_loop ::
  "js_string list \<Rightarrow> int \<Rightarrow> int \<Rightarrow> int \<Rightarrow> bytes \<Rightarrow> (thrown + int) \<times> bytes" where
  "strings_get_loop [] i ptr bufOffset buf = (Inr 0, buf)"
| "strings_get_loop (a # rest) i ptr bufOffset buf =
     (case setUint32 (ptr + i * 4) bufOffset buf of
        Inl e \<Rightarrow> (Inl e, buf)
      | Inr buf1 \<Rightarrow>
          (let encoded = encode a in
           case u8_set encoded bufOffset buf1 of
             Inl e \<Rightarrow> (Inl e, buf1)
           | Inr buf2 \<Rightarrow>
               strings_get_loop rest (i + 1) ptr (bufOffset + int (length encoded) + 1)
                 (u8_assign (bufOffset + int (length encoded)) 0 buf2)))"

definition args_get :: "int \<Rightarrow> int \<Rightarrow> session \<Rightarrow> (thrown + int) \<times> session" where
  "args_get argv_ptr argv_buf_ptr s =
     on_buffer (strings_get_loop (args s) 0 argv_ptr argv_buf_ptr) s"

definition environ_get :: "int \<Rightarrow> int \<Rightarrow> session \<Rightarrow> (thrown + int) \<times> session" where
  "environ_get environ_ptr environ_buf_ptr s =
     on_buffer (strings_get_loop (envArray s) 0 environ_ptr environ_buf_ptr) s"

text \<open>
  \<open>clock_time_get\<close>. The two clock readings are inputs: \<open>date_now\<close> is \<open>Date.now()\<close>,
  \<open>performance_ns\<close> is \<open>Math.round(performance.now() * 1_000_000)\<close>.
\<close>

definition clock_time_get ::
  "int \<Rightarrow> int \<Rightarrow> int \<Rightarrow> int \<Rightarrow> int \<Rightarrow> session \<Rightarrow> (thrown + int) \<times> session" where
  "clock_time_get date_now performance_ns clock_id precision time_ptr s =
     on_buffer (\<lambda>buf.
       let time = (if clock_id = 0 then date_now * 1000000 else performance_ns)
       in case setBigUint64 time_ptr time buf of
            Inl e \<Rightarrow> (Inl e, buf)
          | Inr buf1 \<Rightarrow> (Inr 0, buf1)) s"

text \<open>
  \<open>fd_write\<close>: the loop over the \<open>iovs_len\<close> entries from index \<open>i\<close> on (\<open>n\<close> entries
  are left), accumulating \<open>text\<close> and \<open>written\<close>; then the sink, then \<open>nwritten\<close>.
\<close>

fun fd_write_loop ::
  "nat \<Rightarrow> int \<Rightarrow> int \<Rightarrow> bytes \<Rightarrow> js_string \<Rightarrow> int \<Rightarrow> thrown + js_string \<times> int" where
  "fd_write_loop 0 i iovs_ptr buf text written = Inr (text, written)"
| "fd_write_loop (Suc n) i iovs_ptr buf text written =
     (case getUint32 (iovs_ptr + i * 8) buf of
        Inl e \<Rightarrow> Inl e
      | Inr ptr \<Rightarrow>
          (case getUint32 (iovs_ptr + i * 8 + 4) buf of
             Inl e \<Rightarrow> Inl e
           | Inr len \<Rightarrow>
               fd_write_loop n (i + 1) iovs_ptr buf
                 (text @ decode (slice ptr (ptr + len) buf)) (written + len)))"

definition fd_write ::
  "int \<Rightarrow> int \<Rightarrow> int \<Rightarrow> int \<Rightarrow> session \<Rightarrow> (thrown + int) \<times> session" where
  "fd_write fd iovs_ptr iovs_len nwritten_ptr s =
     (case memory s of
        None \<Rightarrow> (Inl null_memory, s)
      | Some buf \<Rightarrow>
          (case fd_write_loop (nat iovs_len) 0 iovs_ptr buf [] 0 of
             Inl e \<Rightarrow> (Inl e, s)
           | Inr (text, written) \<Rightarrow>
               (let s1 = (if fd = 1 then s\<lparr>stdout := stdout s @ [text]\<rparr>
                          else if fd = 2 then s\<lparr>stderr := stderr s @ [text]\<rparr>
                          else s)
                in case setUint32 nwritten_ptr written buf of
                     Inl e \<Rightarrow> (Inl e, s1)
                   | Inr buf1 \<Rightarrow> (Inr 0, s1\<lparr>memory := Some buf1\<rparr>))))"

definition fd_fdstat_get :: "int \<Rightarrow> int \<Rightarrow> session \<Rightarrow> (thrown + int) \<times> session" where
  "fd_fdstat_get fd stat_ptr s =
     on_buffer (\<lambda>buf.
       case setUint8 stat_ptr (if fd \<le> 2 then 2 else 6) buf of
         Inl e \<Rightarrow> (Inl e, buf)
       | Inr buf1 \<Rightarrow>
           (case setUint16 (stat_ptr + 2) 0 buf1 of
              Inl e \<Rightarrow> (Inl e, buf1)
            | Inr buf2 \<Rightarrow>
                (case setBigUint64 (stat_ptr + 8) 0xFFFFFFFFFFFFFFFF buf2 of
                   Inl e \<Rightarrow> (Inl e, buf2)
                 | Inr buf3 \<Rightarrow>
                     (case setBigUint64 (stat_ptr + 16) 0xFFFFFFFFFFFFFFFF buf3 of
                        Inl e \<Rightarrow> (Inl e, buf3)
                      | Inr buf4 \<Rightarrow> (Inr 0, buf4))))) s"

text \<open>\<open>proc_exit\<close> throws a plain \<open>Error\<close> whose message holds the code.\<close>

definition proc_exit :: "int \<Rightarrow> session \<Rightarrow> (thrown + int) \<times> session" where
  "proc_exit code s = (Inl (Error (''exit('' @ show_int code @ '')'')), s)"

text \<open>
  \<open>random_get\<close> hands \<open>mem.slice(buf_ptr, buf_ptr + buf_len)\<close>, a copy, to
  \<open>crypto.getRandomValues\<close> and drops the filled copy.
\<close>

definition random_get ::
  "(nat \<Rightarrow> bytes) \<Rightarrow> int \<Rightarrow> int \<Rightarrow> session \<Rightarrow> (thrown + int) \<times> session" where
  "random_get entropy buf_ptr buf_len s =
     (case memory s of
        None \<Rightarrow> (Inl null_memory, s)
      | Some mem \<Rightarrow>
          (case getRandomValues entropy (slice buf_ptr (buf_ptr + buf_len) mem) of
             Inl e \<Rightarrow> (Inl e, s)
           | Inr filled \<Rightarrow> (Inr 0, s)))"

text \<open>The handlers that touch nothing.\<close>

definition fd_close :: "int \<Rightarrow> session \<Rightarrow> (thrown + int) \<times> session" where
  "fd_close fd s = (Inr 0, s)"

definition fd_read :: "int \<Rightarrow> int \<Rightarrow> int \<Rightarrow> int \<Rightarrow> session \<Rightarrow> (thrown + int) \<times> session" where
  "fd_read fd iovs_ptr iovs_len nread_ptr s = (Inr 0, s)"

definition fd_prestat_get :: "int \<Rightarrow> int \<Rightarrow> session \<Rightarrow> (thrown + int) \<times> session" where
  "fd_prestat_get fd prestat_ptr s = (Inr 8, s)"

definition sched_yield :: "session \<Rightarrow> (thrown + int) \<times> session" where
  "sched_yield s = (Inr 0, s)"

section \<open>Vocabulary for stating what the handlers leave in memory\<close>

text \<open>
  A Unicode scalar value: a code point that is not a surrogate. A well-formed string has
  no lone surrogate.
\<close>

definition scalar :: "nat \<Rightarrow> bool" where
  "scalar cp = (cp < 0x110000 \<and> \<not> (0xD800 \<le> cp \<and> cp \<le> 0xDFFF))"

fun well_formed :: "js_string \<Rightarrow> bool" where
  "well_formed [] = True"
| "well_formed [u] = (\<not> is_high u \<and> \<not> is_low u)"
| "well_formed (u # l # rest) =
     (if is_high u \<and> is_low l then well_formed rest
      else \<not> is_high u \<and> \<not> is_low u \<and> well_formed (l # rest))"

text \<open>
  The strings of a vector packed one after the other from \<open>off\<close>, each followed by one
  NUL byte: the space they take, and where the \<open>k\<close>-th one starts.
\<close>

definition packed_size :: "js_string list \<Rightarrow> nat" where
  "packed_size strs = (\<Sum>a\<leftarrow>strs. length (encode a) + 1)"

fun offset_of :: "nat \<Rightarrow> js_string list \<Rightarrow> nat \<Rightarrow> nat" where
  "offset_of off [] k = off"
| "offset_of off (a # rest) 0 = off"
| "offset_of off (a # rest) (Suc k) = offset_of (off + length (encode a) + 1) rest k"

text \<open>The string a byte sequence holds when it is read as UTF-8, byte order mark and all.\<close>

definition utf8_string :: "bytes \<Rightarrow> js_string" where
  "utf8_string bs = concat (map utf16_of (utf8_decode 0 0 0x80 0xBF bs))"

text \<open>The NUL-terminated byte string a guest reads at address \<open>p\<close>.\<close>

definition c_string :: "bytes \<Rightarrow> nat \<Rightarrow> bytes" where
  "c_string buf p = takeWhile (\<lambda>b. b \<noteq> 0) (drop p buf)"

text \<open>
  The buffer after one round of the loop of \<open>args_get\<close> that stores the string \<open>a\<close> at
  \<open>off\<close> and its pointer in the slot at \<open>slot\<close>.
\<close>

definition round_buf :: "js_string \<Rightarrow> nat \<Rightarrow> nat \<Rightarrow> bytes \<Rightarrow> bytes" where
  "round_buf a slot off buf =
     (store off (encode a) (store slot (le_bytes 4 (int off)) buf))
       [off + length (encode a) := 0]"

text \<open>The spans an \<open>fd_write\<close> call is handed: the iovec entries, and the bytes of each.\<close>

definition iovec_at :: "bytes \<Rightarrow> int \<Rightarrow> nat \<Rightarrow> int \<times> int" where
  "iovec_at buf iovs_ptr i =
     (le_value (take 4 (drop (nat (iovs_ptr + int i * 8)) buf)),
      le_value (take 4 (drop (nat (iovs_ptr + int i * 8 + 4)) buf)))"

definition iovecs :: "bytes \<Rightarrow> int \<Rightarrow> nat \<Rightarrow> (int \<times> int) list" where
  "iovecs buf iovs_ptr n = map (iovec_at buf iovs_ptr) [0..<n]"

definition iov_text :: "bytes \<Rightarrow> int \<times> int \<Rightarrow> js_string" where
  "iov_text buf iov = decode (slice (fst iov) (fst iov + snd iov) buf)"


text \<open>
  Whether the loop of \<open>args_get\<close> and \<open>environ_get\<close> finds room in a memory of \<open>L\<close>
  bytes: \<open>n\<close> bytes fit at \<open>off\<close>; and for a vector, from the slot at \<open>slot\<close> and the
  buffer offset \<open>off\<close> on, every four-byte pointer slot fits and so do the encoded bytes
  of every string (the byte after them, where the terminator goes, is not asked for).
\<close>

definition fits :: "nat \<Rightarrow> int \<Rightarrow> nat \<Rightarrow> bool" where
  "fits L off n = (0 \<le> off \<and> off + int n \<le> int L)"

fun strings_fit :: "nat \<Rightarrow> js_string list \<Rightarrow> int \<Rightarrow> int \<Rightarrow> bool" where
  "strings_fit L [] slot off = True"
| "strings_fit L (a # rest) slot off =
     (fits L slot 4 \<and> fits L off (length (encode a))
      \<and> strings_fit L rest (slot + 4) (off + int (length (encode a)) + 1))"

text \<open>
  Reading the exit code back from the message of the \<open>Error\<close> that \<open>proc_exit\<close> throws:
  the decimal number between \<open>exit(\<close> and the closing bracket.
\<close>

definition read_nat :: "string \<Rightarrow> nat" where
  "read_nat ds = foldl (\<lambda>acc d. 10 * acc + (of_char d - 48)) 0 ds"

definition read_int :: "string \<Rightarrow> int" where
  "read_int cs =
     (case cs of [] \<Rightarrow> 0
      | c # ds \<Rightarrow> if c = CHR ''-'' then - int (read_nat ds) else int (read_nat cs))"

definition exit_code_of :: "string \<Rightarrow> int" where
  "exit_code_of msg = read_int (take (length msg - 6) (drop 5 msg))"

section \<open>Sessions for concrete calls\<close>

text \<open>
  Sixteen bytes of memory and the arguments \<open>ab\<close> and \<open>c\<close>; the same with eight bytes
  and one argument that holds a NUL character between \<open>a\<close> and \<open>b\<close>.
\<close>

definition args_session :: session where
  "args_session =
     \<lparr>memory = Some (replicate 16 0xFF), args = [js ''ab'', js ''c''], envArray = [],
      stdout = [], stderr = []\<rparr>"

definition nul_session :: session where
  "nul_session =
     \<lparr>memory = Some (replicate 8 0xFF), args = [[0x61, 0, 0x62]], envArray = [],
      stdout = [], stderr = []\<rparr>"

text \<open>The same with one argument that is a lone high surrogate.\<close>

definition lone_session :: session where
  "lone_session =
     \<lparr>memory = Some (replicate 8 0xFF), args = [[0xD800]], envArray = [],
      stdout = [], stderr = []\<rparr>"

text \<open>
  A session with the given memory and nothing else, and an entropy source that delivers
  the byte \<open>0xAA\<close> only.
\<close>

definition mem_session :: "bytes \<Rightarrow> session" where
  "mem_session buf = \<lparr>memory = Some buf, args = [], envArray = [], stdout = [], stderr = []\<rparr>"

definition fixed_entropy :: "nat \<Rightarrow> bytes" where
  "fixed_entropy n = replicate n 0xAA"

text \<open>
  A guest that runs on a WASI session: it reports ready for as many ticks as its counter
  says and then calls the import \<open>proc_exit\<close>, whose exception leaves the tick (were the
  call to return, the tick would report idle). And a tick that fails with an \<open>Error\<close> of
  a given message for any other reason.
\<close>

definition exit_tick :: "int \<Rightarrow> nat \<times> session \<Rightarrow> (thrown + int) \<times> (nat \<times> session)" where
  "exit_tick code w =
     (case w of
        (Suc k, s) \<Rightarrow> (Inr Ready, (k, s))
      | (0, s) \<Rightarrow>
          (case proc_exit code s of
             (Inl e, s1) \<Rightarrow> (Inl e, (0, s1))
           | (Inr v, s1) \<Rightarrow> (Inr Idle, (0, s1))))"

definition fault_tick :: "string \<Rightarrow> nat \<times> session \<Rightarrow> (thrown + int) \<times> (nat \<times> session)" where
  "fault_tick msg w =
     (case w of
        (Suc k, s) \<Rightarrow> (Inr Ready, (k, s))
      | (0, s) \<Rightarrow> (Inl (Error msg), (0, s)))"

definition session_reactor ::
  "(nat \<times> session \<Rightarrow> (thrown + int) \<times> (nat \<times> session)) \<Rightarrow> (nat \<times> session) Reactor" where
  "session_reactor tick =
     \<lparr>exports = \<lparr>memory_export = Some ExMemory, wasm_initialize = (\<lambda>w. (Inr 0, w)),
                  go_start_main = (\<lambda>w. (Inr 0, w)), go_tick = tick\<rparr>,
      mainStarted = False, onTick = None\<rparr>"

section \<open>Facts about the scheduler loops\<close>

lemmas script_defs = script_reactor_def script_exports_def script_void_def script_tick_def
  timeout_wait_def start_machine_def script_reactor_go_def script_void_go_def script_tick_go_def
  background_def

lemmas js_run_defs = runAsync_def runSync_def startMain_def call_onTick_def loopOnce_def emit_def
  Idle_def Ready_def

lemmas go_run_defs = Run_def RunWithCallback_def StartMain_def LoopOnce_def emit_def
  LoopIdle_def LoopReady_def

lemma int32_of_i32 [simp]: "(ucast (ucast (w :: 32 word) :: 64 word) :: 32 word) = w"
  by (rule bit_word_eqI) (auto simp: bit_simps)

text \<open>One call into the scripted Go guest.\<close>

lemma LoopOnce_script:
  "LoopOnce script_reactor_go \<lparr>world = x # xs, trace = t\<rparr> =
     (Returned (Inr (word_of_int x)), \<lparr>world = xs, trace = t @ [EvTick]\<rparr>)"
  by (simp add: LoopOnce_def script_reactor_go_def script_tick_go_def emit_def)

lemma StartMain_script:
  "StartMain script_reactor_go \<lparr>world = w, trace = t\<rparr> =
     (None, \<lparr>world = w, trace = t @ [EvStartMain]\<rparr>)"
  by (simp add: StartMain_def script_reactor_go_def script_void_go_def emit_def)

lemma background_simps:
  "ctx_done background w = None" "timer_select background ms w = (None, w)"
  by (simp_all add: background_def)

lemma machine_rebuilt [simp]:
  "(m :: 'w machine)\<lparr>world := w, trace := t\<rparr> = \<lparr>world = w, trace = t\<rparr>"
  "(m :: 'w machine)\<lparr>trace := t, world := w\<rparr> = \<lparr>world = w, trace = t\<rparr>"
  by (cases m, simp)+

lemma startMain_keeps:
  "startMain r m = (res, r1, m1) \<Longrightarrow> exports r1 = exports r \<and> onTick r1 = onTick r"
  by (auto simp: startMain_def split: if_splits prod.splits sum.splits)

lemma call_onTick_returns:
  assumes "\<And>f w. onTick r = Some f \<Longrightarrow> fst (f w) = None"
  shows "call_onTick r m =
           (Inr (), \<lparr>world = onTick_world r (world m), trace = trace m @ onTick_events r\<rparr>)"
proof (cases "onTick r")
  case None
  then show ?thesis by (simp add: call_onTick_def onTick_world_def onTick_events_def)
next
  case (Some f)
  from assms [OF Some, of "world m"] Some show ?thesis
    by (cases "f (world m)") (simp add: call_onTick_def onTick_world_def onTick_events_def emit_def)
qed

text \<open>One iteration of each loop, by the tick's result.\<close>

lemma runAsync_loop_Ready:
  assumes "call_onTick r m = (Inr (), m1)" "go_tick (exports r) (world m1) = (Inr 0, w)"
  shows "runAsync_loop (Suc n) wait r m =
           runAsync_loop n wait r \<lparr>world = w, trace = trace m1 @ [EvTick, EvYield]\<rparr>"
  using assms by (simp add: loopOnce_def Idle_def Ready_def emit_def)

lemma runAsync_loop_Timer:
  assumes "call_onTick r m = (Inr (), m1)" "go_tick (exports r) (world m1) = (Inr v, w)" "0 < v"
    "wait v w = (None, w')"
  shows "runAsync_loop (Suc n) wait r m =
           runAsync_loop n wait r \<lparr>world = w', trace = trace m1 @ [EvTick, EvWait v]\<rparr>"
  using assms by (simp add: loopOnce_def Idle_def Ready_def emit_def)

lemma runAsync_loop_Idle:
  assumes "call_onTick r m = (Inr (), m1)" "go_tick (exports r) (world m1) = (Inr (-1), w)"
  shows "runAsync_loop (Suc n) wait r m = Some (Inr (), \<lparr>world = w, trace = trace m1 @ [EvTick]\<rparr>)"
  using assms by (simp add: loopOnce_def Idle_def emit_def)

lemma runSync_loop_Idle:
  assumes "call_onTick r m = (Inr (), m1)" "go_tick (exports r) (world m1) = (Inr (-1), w)"
  shows "runSync_loop (Suc n) r m = Some (Inr (), \<lparr>world = w, trace = trace m1 @ [EvTick]\<rparr>)"
  using assms by (simp add: loopOnce_def Idle_def emit_def)

lemma sint_eq_iff32: "(a :: 32 word) = b \<longleftrightarrow> sint a = sint b"
  by (auto intro: signed_word_eqI)

lemma Run_loop_step:
  assumes "ctx_done ctx (world m) = None" "goTick r (world (call_onTick_go cb m)) = (Inr (x # xs), w)"
  shows "Run_loop (Suc n) ctx cb r m =
    (let v = sint (ucast x :: 32 word);
         m1 = \<lparr>world = w, trace = trace (call_onTick_go cb m) @ [EvTick]\<rparr>
     in if v = -1 then Some (Returned None, m1)
        else if v = 0 then Run_loop n ctx cb r m1
        else if 0 < v then
          (case timer_select ctx v w of
             (Some e, w') \<Rightarrow>
               Some (Returned (Some e), \<lparr>world = w', trace = trace m1 @ [EvTimer v, EvTimerStop]\<rparr>)
           | (None, w') \<Rightarrow>
               Run_loop n ctx cb r \<lparr>world = w', trace = trace m1 @ [EvTimer v]\<rparr>)
        else Run_loop n ctx cb r m1)"
  using assms
  by (simp add: LoopOnce_def LoopIdle_def LoopReady_def sint_eq_iff32 [of "ucast x"]
        call_onTick_go_def [symmetric] Let_def emit_def split: prod.splits option.splits)

lemma runAsync_loop_skip:
  assumes "v < -1" "call_onTick r m = (Inr (), ma)" "go_tick (exports r) (world ma) = (Inr v, wa)"
  shows "runAsync_loop (Suc n) wait r m =
           runAsync_loop n wait r \<lparr>world = wa, trace = trace ma @ [EvTick]\<rparr>"
  using assms by (simp add: loopOnce_def Idle_def Ready_def emit_def)

lemma runSync_loop_skip:
  assumes "v < -1" "call_onTick r m = (Inr (), ma)" "go_tick (exports r) (world ma) = (Inr v, wa)"
  shows "runSync_loop (Suc n) r m = runSync_loop n r \<lparr>world = wa, trace = trace ma @ [EvTick]\<rparr>"
  using assms by (simp add: loopOnce_def Idle_def Ready_def emit_def)

lemma Run_loop_skip:
  assumes "sint (ucast x :: 32 word) < -1" "ctx_done ctx (world gm) = None"
    "goTick g (world (call_onTick_go cb gm)) = (Inr (x # xs), va)"
  shows "Run_loop (Suc n) ctx cb g gm =
           Run_loop n ctx cb g \<lparr>world = va, trace = trace (call_onTick_go cb gm) @ [EvTick]\<rparr>"
  using assms(1) Run_loop_step [OF assms(2,3), of n] by (simp add: Let_def)

lemma Run_loop_Idle:
  assumes "sint (ucast x :: 32 word) = -1" "ctx_done ctx (world gm) = None"
    "goTick g (world (call_onTick_go cb gm)) = (Inr (x # xs), va)"
  shows "Run_loop (Suc n) ctx cb g gm =
           Some (Returned None, \<lparr>world = va, trace = trace (call_onTick_go cb gm) @ [EvTick]\<rparr>)"
  using assms(1) Run_loop_step [OF assms(2,3), of n] by (simp add: Let_def)

subsection \<open>C2: the tick sequence 0, 0, 5, -1\<close>

text \<open>
  C2. Take any guest whose four tick invocations after main is queued return 0, 0, 5 and
  -1: each on the guest state the previous one left (after the per-iteration callback, if
  there is one, has returned normally), the last on the state left by the wait of 5 ms.
  Then \<open>runAsync\<close> in the JavaScript harness and \<open>Run\<close> in the Go harness (its context
  not done), given fuel for four iterations or more, return success with the guest in the
  state the fourth tick left: tick has been invoked exactly four times, the second and the
  third invocation following a 0 with no wait (after a yield in JavaScript), the fourth
  following the one wait of 5 ms, and nothing is invoked after the tick that returned -1.
\<close>

theorem tick_sequence_0_0_5_idle:
  assumes js_start: "startMain r m = (Inr (), r', m')"
      and js_cb: "\<And>f w. onTick r = Some f \<Longrightarrow> fst (f w) = None"
      and js_t1: "go_tick (exports r) (onTick_world r (world m')) = (Inr 0, wa)"
      and js_t2: "go_tick (exports r) (onTick_world r wa) = (Inr 0, wb)"
      and js_t3: "go_tick (exports r) (onTick_world r wb) = (Inr 5, wc)"
      and js_wait: "wait 5 wc = (None, wd)"
      and js_t4: "go_tick (exports r) (onTick_world r wd) = (Inr (-1), we)"
      and go_start: "StartMain g gm = (None, gm')"
      and go_live: "ctx_done ctx (world gm') = None" "ctx_done ctx va = None"
                   "ctx_done ctx vb = None" "ctx_done ctx vd = None"
      and go_t1: "goTick g (world gm') = (Inr (xa # xsa), va)" "sint (ucast xa :: 32 word) = 0"
      and go_t2: "goTick g va = (Inr (xb # xsb), vb)" "sint (ucast xb :: 32 word) = 0"
      and go_t3: "goTick g vb = (Inr (xc # xsc), vc)" "sint (ucast xc :: 32 word) = 5"
      and go_timer: "timer_select ctx 5 vc = (None, vd)"
      and go_t4: "goTick g vd = (Inr (xd # xsd), ve)" "sint (ucast xd :: 32 word) = -1"
      and fuel: "4 \<le> fuel"
  shows "runAsync fuel wait r m =
           Some (Inr (), r',
                 \<lparr>world = we,
                  trace = trace m' @ onTick_events r @ [EvTick, EvYield]
                            @ onTick_events r @ [EvTick, EvYield]
                            @ onTick_events r @ [EvTick, EvWait 5]
                            @ onTick_events r @ [EvTick]\<rparr>)
       \<and> Run fuel ctx g gm =
           Some (Returned None,
                 \<lparr>world = ve, trace = trace gm' @ [EvTick, EvTick, EvTick, EvTimer 5, EvTick]\<rparr>)"
proof -
  from fuel obtain k where "fuel = 4 + k"
    using le_Suc_ex by blast
  then have k: "fuel = Suc (Suc (Suc (Suc k)))" by simp
  have ex: "exports r' = exports r" and ot: "onTick r' = onTick r"
    using startMain_keeps [OF js_start] by simp_all
  have ow: "onTick_world r' = onTick_world r" and oe: "onTick_events r' = onTick_events r"
    using ot by (simp_all add: onTick_world_def onTick_events_def fun_eq_iff)
  have cb: "call_onTick r' ma =
      (Inr (), \<lparr>world = onTick_world r (world ma), trace = trace ma @ onTick_events r\<rparr>)" for ma
    using call_onTick_returns [of r' ma] js_cb by (simp add: ot ow oe)
  let ?e = "onTick_events r"
  have 1: "runAsync_loop fuel wait r' m' =
      runAsync_loop (Suc (Suc (Suc k))) wait r'
        \<lparr>world = wa, trace = trace m' @ ?e @ [EvTick, EvYield]\<rparr>"
    unfolding k using runAsync_loop_Ready [OF cb, of m' wa] js_t1 by (simp add: ex)
  have 2: "runAsync_loop (Suc (Suc (Suc k))) wait r'
        \<lparr>world = wa, trace = trace m' @ ?e @ [EvTick, EvYield]\<rparr> =
      runAsync_loop (Suc (Suc k)) wait r'
        \<lparr>world = wb, trace = trace m' @ ?e @ [EvTick, EvYield] @ ?e @ [EvTick, EvYield]\<rparr>"
    using runAsync_loop_Ready [OF cb, of "\<lparr>world = wa, trace = trace m' @ ?e @ [EvTick, EvYield]\<rparr>" wb]
      js_t2 by (simp add: ex)
  have 3: "runAsync_loop (Suc (Suc k)) wait r'
        \<lparr>world = wb, trace = trace m' @ ?e @ [EvTick, EvYield] @ ?e @ [EvTick, EvYield]\<rparr> =
      runAsync_loop (Suc k) wait r'
        \<lparr>world = wd, trace = trace m' @ ?e @ [EvTick, EvYield] @ ?e @ [EvTick, EvYield]
                            @ ?e @ [EvTick, EvWait 5]\<rparr>"
    using runAsync_loop_Timer [OF cb, of
        "\<lparr>world = wb, trace = trace m' @ ?e @ [EvTick, EvYield] @ ?e @ [EvTick, EvYield]\<rparr>"
        5 wc wait wd] js_t3 js_wait by (simp add: ex)
  have 4: "runAsync_loop (Suc k) wait r'
        \<lparr>world = wd, trace = trace m' @ ?e @ [EvTick, EvYield] @ ?e @ [EvTick, EvYield]
                            @ ?e @ [EvTick, EvWait 5]\<rparr> =
      Some (Inr (), \<lparr>world = we, trace = trace m' @ ?e @ [EvTick, EvYield] @ ?e @ [EvTick, EvYield]
                            @ ?e @ [EvTick, EvWait 5] @ ?e @ [EvTick]\<rparr>)"
    using runAsync_loop_Idle [OF cb, of
        "\<lparr>world = wd, trace = trace m' @ ?e @ [EvTick, EvYield] @ ?e @ [EvTick, EvYield]
                            @ ?e @ [EvTick, EvWait 5]\<rparr>" we] js_t4 by (simp add: ex)
  have js: "runAsync fuel wait r m =
           Some (Inr (), r',
                 \<lparr>world = we,
                  trace = trace m' @ ?e @ [EvTick, EvYield] @ ?e @ [EvTick, EvYield]
                            @ ?e @ [EvTick, EvWait 5] @ ?e @ [EvTick]\<rparr>)"
    by (simp only: runAsync_def js_start prod.case sum.case 1 2 3 4 option.map)
  have g1: "Run_loop fuel ctx None g gm' =
      Run_loop (Suc (Suc (Suc k))) ctx None g \<lparr>world = va, trace = trace gm' @ [EvTick]\<rparr>"
    unfolding k
    using Run_loop_step [of ctx gm' g None xa xsa va] go_live(1) go_t1
    by (simp add: call_onTick_go_def)
  have g2: "Run_loop (Suc (Suc (Suc k))) ctx None g \<lparr>world = va, trace = trace gm' @ [EvTick]\<rparr> =
      Run_loop (Suc (Suc k)) ctx None g \<lparr>world = vb, trace = trace gm' @ [EvTick, EvTick]\<rparr>"
    using Run_loop_step [of ctx "\<lparr>world = va, trace = trace gm' @ [EvTick]\<rparr>" g None xb xsb vb]
      go_live(2) go_t2
    by (simp add: call_onTick_go_def)
  have g3: "Run_loop (Suc (Suc k)) ctx None g \<lparr>world = vb, trace = trace gm' @ [EvTick, EvTick]\<rparr> =
      Run_loop (Suc k) ctx None g
        \<lparr>world = vd, trace = trace gm' @ [EvTick, EvTick, EvTick, EvTimer 5]\<rparr>"
    using Run_loop_step [of ctx "\<lparr>world = vb, trace = trace gm' @ [EvTick, EvTick]\<rparr>"
        g None xc xsc vc] go_live(3) go_t3 go_timer
    by (simp add: call_onTick_go_def)
  have g4: "Run_loop (Suc k) ctx None g
        \<lparr>world = vd, trace = trace gm' @ [EvTick, EvTick, EvTick, EvTimer 5]\<rparr> =
      Some (Returned None,
            \<lparr>world = ve, trace = trace gm' @ [EvTick, EvTick, EvTick, EvTimer 5, EvTick]\<rparr>)"
    using Run_loop_step [of ctx
        "\<lparr>world = vd, trace = trace gm' @ [EvTick, EvTick, EvTick, EvTimer 5]\<rparr>"
        g None xd xsd ve] go_live(4) go_t4
    by (simp add: call_onTick_go_def)
  have go: "Run fuel ctx g gm =
           Some (Returned None,
                 \<lparr>world = ve, trace = trace gm' @ [EvTick, EvTick, EvTick, EvTimer 5, EvTick]\<rparr>)"
    by (simp only: Run_def go_start prod.case option.case g1 g2 g3 g4)
  from js go show ?thesis by (rule conjI)
qed

text \<open>
  The hypotheses of C2 hold of the scripted guests started on 0, 0, 5, -1, the JavaScript
  one with a per-iteration callback.
\<close>

theorem tick_sequence_0_0_5_idle_witness:
  "runAsync 4 timeout_wait watched_reactor (start_machine [0, 0, 5, -1]) =
     Some (Inr (), watched_reactor\<lparr>mainStarted := True\<rparr>,
           \<lparr>world = [],
            trace = [EvStartMain, EvOnTick, EvTick, EvYield, EvOnTick, EvTick, EvYield,
                     EvOnTick, EvTick, EvWait 5, EvOnTick, EvTick]\<rparr>)
   \<and> Run 4 background script_reactor_go (start_machine [0, 0, 5, -1]) =
     Some (Returned None,
           \<lparr>world = [], trace = [EvStartMain, EvTick, EvTick, EvTick, EvTimer 5, EvTick]\<rparr>)"
proof -
  have ev: "onTick_events watched_reactor = [EvOnTick]"
    and ow: "onTick_world watched_reactor w = w" for w :: "int list"
    by (simp_all add: onTick_events_def onTick_world_def watched_reactor_def)
  have ex: "go_tick (exports watched_reactor) = script_tick"
    by (simp add: watched_reactor_def script_reactor_def script_exports_def)
  have gt: "goTick script_reactor_go (x # xs) = (Inr [ucast (word_of_int x :: 32 word)], xs)" for x xs
    by (simp add: script_reactor_go_def script_tick_go_def)
  have t: "runAsync 4 timeout_wait watched_reactor (start_machine [0, 0, 5, -1]) =
           Some (Inr (), watched_reactor\<lparr>mainStarted := True\<rparr>,
                 \<lparr>world = [],
                  trace = trace \<lparr>world = [0, 0, 5, -1 :: int], trace = [EvStartMain]\<rparr>
                            @ onTick_events watched_reactor @ [EvTick, EvYield]
                            @ onTick_events watched_reactor @ [EvTick, EvYield]
                            @ onTick_events watched_reactor @ [EvTick, EvWait 5]
                            @ onTick_events watched_reactor @ [EvTick]\<rparr>)
       \<and> Run 4 background script_reactor_go (start_machine [0, 0, 5, -1]) =
           Some (Returned None,
                 \<lparr>world = [],
                  trace = trace \<lparr>world = [0, 0, 5, -1 :: int], trace = [EvStartMain]\<rparr>
                            @ [EvTick, EvTick, EvTick, EvTimer 5, EvTick]\<rparr>)"
  proof (rule tick_sequence_0_0_5_idle [where wa = "[0, 5, -1]" and wb = "[5, -1]" and wc = "[-1]"
        and wd = "[-1]" and va = "[0, 5, -1]" and vb = "[5, -1]" and vc = "[-1]" and vd = "[-1]"
        and xa = "ucast (word_of_int 0 :: 32 word)" and xb = "ucast (word_of_int 0 :: 32 word)"
        and xc = "ucast (word_of_int 5 :: 32 word)" and xd = "ucast (word_of_int (-1) :: 32 word)"
        and xsa = "[]" and xsb = "[]" and xsc = "[]" and xsd = "[]"])
    show "startMain watched_reactor (start_machine [0, 0, 5, -1]) =
        (Inr (), watched_reactor\<lparr>mainStarted := True\<rparr>,
         \<lparr>world = [0, 0, 5, -1], trace = [EvStartMain]\<rparr>)"
      by (simp add: startMain_def watched_reactor_def script_defs emit_def)
    show "fst (f w) = None" if "onTick watched_reactor = Some f" for f and w :: "int list"
      using that by (auto simp: watched_reactor_def)
    show "StartMain script_reactor_go (start_machine [0, 0, 5, -1]) =
        (None, \<lparr>world = [0, 0, 5, -1], trace = [EvStartMain]\<rparr>)"
      by (simp add: StartMain_def script_defs emit_def)
  qed (simp_all add: ow ex script_tick_def timeout_wait_def background_def gt)
  then show ?thesis by (simp add: ev)
qed

subsection \<open>C1: a tick result below -1\<close>

text \<open>
  C1, as stated, fails. On the scripted guest whose ticks return -2 and then -1, each of
  the four loops returns success, having invoked tick a second time after the -2.
\<close>

theorem negative_tick_counterexample:
  "runAsync 2 timeout_wait script_reactor (start_machine [-2, -1]) =
     Some (Inr (), script_reactor\<lparr>mainStarted := True\<rparr>,
           \<lparr>world = [], trace = [EvStartMain, EvTick, EvTick]\<rparr>)
   \<and> runSync 2 script_reactor (start_machine [-2, -1]) =
     Some (Inr (), script_reactor\<lparr>mainStarted := True\<rparr>,
           \<lparr>world = [], trace = [EvStartMain, EvTick, EvTick]\<rparr>)
   \<and> Run 2 background script_reactor_go (start_machine [-2, -1]) =
     Some (Returned None, \<lparr>world = [], trace = [EvStartMain, EvTick, EvTick]\<rparr>)
   \<and> RunWithCallback 2 background None script_reactor_go (start_machine [-2, -1]) =
     Some (Returned None, \<lparr>world = [], trace = [EvStartMain, EvTick, EvTick]\<rparr>)"
proof -
  have a: "runAsync 2 timeout_wait script_reactor (start_machine [-2, -1]) =
     Some (Inr (), script_reactor\<lparr>mainStarted := True\<rparr>,
           \<lparr>world = [], trace = [EvStartMain, EvTick, EvTick]\<rparr>)"
    by (simp add: script_defs js_run_defs numeral_2_eq_2)
  have b: "runSync 2 script_reactor (start_machine [-2, -1]) =
     Some (Inr (), script_reactor\<lparr>mainStarted := True\<rparr>,
           \<lparr>world = [], trace = [EvStartMain, EvTick, EvTick]\<rparr>)"
    by (simp add: script_defs js_run_defs numeral_2_eq_2)
  have c: "Run 2 background script_reactor_go (start_machine [-2, -1]) =
     Some (Returned None, \<lparr>world = [], trace = [EvStartMain, EvTick, EvTick]\<rparr>)"
    by (simp add: Run_def start_machine_def StartMain_script LoopOnce_script background_simps
          LoopIdle_def LoopReady_def numeral_2_eq_2)
  have d: "RunWithCallback 2 background None script_reactor_go (start_machine [-2, -1]) =
     Some (Returned None, \<lparr>world = [], trace = [EvStartMain, EvTick, EvTick]\<rparr>)"
    by (simp add: RunWithCallback_def start_machine_def StartMain_script LoopOnce_script
          background_simps LoopIdle_def LoopReady_def numeral_2_eq_2)
  show ?thesis
    by (intro conjI) (rule a, rule b, rule c, rule d)
qed

text \<open>
  C1, amended. A tick result below -1 is not treated as a protocol violation by either
  harness. In \<open>runAsync\<close> and \<open>runSync\<close> it matches none of the tests on the result, in
  \<open>Run\<close> and \<open>RunWithCallback\<close> none of the cases of the \<open>switch\<close>: the iteration ends
  without yield, wait or error, and the loop goes on with its next iteration on the guest
  state that tick left. When that iteration reaches its tick (the per-iteration callback,
  if any, returns normally; the Go context is not done), tick is invoked again, and when
  this tick returns -1 the run ends in success: no error has been surfaced.
\<close>

theorem negative_tick_goes_round_again:
  assumes "v < -1"
      and "call_onTick r m = (Inr (), ma)"
      and "go_tick (exports r) (world ma) = (Inr v, wa)"
      and "call_onTick r \<lparr>world = wa, trace = trace ma @ [EvTick]\<rparr> = (Inr (), mb)"
      and "go_tick (exports r) (world mb) = (Inr (-1), wb)"
      and "sint (ucast x :: 32 word) < -1"
      and "ctx_done ctx (world gm) = None"
      and "goTick g (world (call_onTick_go cb gm)) = (Inr (x # xs), va)"
      and "gma = \<lparr>world = va, trace = trace (call_onTick_go cb gm) @ [EvTick]\<rparr>"
      and "ctx_done ctx va = None"
      and "goTick g (world (call_onTick_go cb gma)) = (Inr (y # ys), vb)"
      and "sint (ucast y :: 32 word) = -1"
  shows "runAsync_loop (Suc n) wait r m =
           runAsync_loop n wait r \<lparr>world = wa, trace = trace ma @ [EvTick]\<rparr>
       \<and> runSync_loop (Suc n) r m = runSync_loop n r \<lparr>world = wa, trace = trace ma @ [EvTick]\<rparr>
       \<and> Run_loop (Suc n) ctx cb g gm = Run_loop n ctx cb g gma
       \<and> runAsync_loop (Suc (Suc n)) wait r m =
           Some (Inr (), \<lparr>world = wb, trace = trace mb @ [EvTick]\<rparr>)
       \<and> runSync_loop (Suc (Suc n)) r m =
           Some (Inr (), \<lparr>world = wb, trace = trace mb @ [EvTick]\<rparr>)
       \<and> Run_loop (Suc (Suc n)) ctx cb g gm =
           Some (Returned None, \<lparr>world = vb, trace = trace (call_onTick_go cb gma) @ [EvTick]\<rparr>)"
proof -
  note a1 = runAsync_loop_skip [OF assms(1,2,3)]
  note s1 = runSync_loop_skip [OF assms(1,2,3)]
  have g1: "Run_loop (Suc n) ctx cb g gm = Run_loop n ctx cb g gma" for n
    unfolding assms(9) by (rule Run_loop_skip [OF assms(6,7,8)])
  have a2: "runAsync_loop (Suc (Suc n)) wait r m =
           Some (Inr (), \<lparr>world = wb, trace = trace mb @ [EvTick]\<rparr>)"
    by (simp only: a1 [of "Suc n"] runAsync_loop_Idle [OF assms(4,5)])
  have s2: "runSync_loop (Suc (Suc n)) r m =
           Some (Inr (), \<lparr>world = wb, trace = trace mb @ [EvTick]\<rparr>)"
    by (simp only: s1 [of "Suc n"] runSync_loop_Idle [OF assms(4,5)])
  have c: "ctx_done ctx (world gma) = None"
    using assms(10) by (simp add: assms(9))
  have g2: "Run_loop (Suc (Suc n)) ctx cb g gm =
           Some (Returned None, \<lparr>world = vb, trace = trace (call_onTick_go cb gma) @ [EvTick]\<rparr>)"
    by (simp only: g1 [of "Suc n"] Run_loop_Idle [OF assms(12) c assms(11)])
  show ?thesis
    by (intro conjI) (rule a1, rule s1, rule g1, rule a2, rule s2, rule g2)
qed

text \<open>The hypotheses of the amended C1 hold of the scripted guests about to return -2.\<close>

theorem negative_tick_goes_round_again_witness:
  "runAsync_loop 2 timeout_wait script_reactor \<lparr>world = [-2, -1], trace = []\<rparr> =
     Some (Inr (), \<lparr>world = [], trace = [EvTick, EvTick]\<rparr>)
   \<and> runSync_loop 2 script_reactor \<lparr>world = [-2, -1], trace = []\<rparr> =
     Some (Inr (), \<lparr>world = [], trace = [EvTick, EvTick]\<rparr>)
   \<and> Run_loop 2 background None script_reactor_go \<lparr>world = [-2, -1], trace = []\<rparr> =
     Some (Returned None, \<lparr>world = [], trace = [EvTick, EvTick]\<rparr>)"
proof -
  have gt: "goTick script_reactor_go (x # xs) = (Inr [ucast (word_of_int x :: 32 word)], xs)" for x xs
    by (simp add: script_reactor_go_def script_tick_go_def)
  have ex: "go_tick (exports script_reactor) = script_tick"
    by (simp add: script_reactor_def script_exports_def)
  have cb: "call_onTick script_reactor ma = (Inr (), ma)" for ma
    by (simp add: call_onTick_def script_reactor_def)
  have cg: "call_onTick_go None gma = gma" for gma :: "int list machine"
    by (simp add: call_onTick_go_def)
  have t: "runAsync_loop (Suc 0) timeout_wait script_reactor \<lparr>world = [-2, -1], trace = []\<rparr> =
           runAsync_loop 0 timeout_wait script_reactor
             \<lparr>world = [-1], trace = trace \<lparr>world = [-2, -1 :: int], trace = []\<rparr> @ [EvTick]\<rparr>
       \<and> runSync_loop (Suc 0) script_reactor \<lparr>world = [-2, -1], trace = []\<rparr> =
           runSync_loop 0 script_reactor
             \<lparr>world = [-1], trace = trace \<lparr>world = [-2, -1 :: int], trace = []\<rparr> @ [EvTick]\<rparr>
       \<and> Run_loop (Suc 0) background None script_reactor_go \<lparr>world = [-2, -1], trace = []\<rparr> =
           Run_loop 0 background None script_reactor_go \<lparr>world = [-1], trace = [EvTick]\<rparr>
       \<and> runAsync_loop (Suc (Suc 0)) timeout_wait script_reactor \<lparr>world = [-2, -1], trace = []\<rparr> =
           Some (Inr (), \<lparr>world = [], trace = trace \<lparr>world = [-1 :: int], trace = [EvTick]\<rparr> @ [EvTick]\<rparr>)
       \<and> runSync_loop (Suc (Suc 0)) script_reactor \<lparr>world = [-2, -1], trace = []\<rparr> =
           Some (Inr (), \<lparr>world = [], trace = trace \<lparr>world = [-1 :: int], trace = [EvTick]\<rparr> @ [EvTick]\<rparr>)
       \<and> Run_loop (Suc (Suc 0)) background None script_reactor_go \<lparr>world = [-2, -1], trace = []\<rparr> =
           Some (Returned None,
             \<lparr>world = [],
              trace = trace (call_onTick_go None \<lparr>world = [-1 :: int], trace = [EvTick]\<rparr>) @ [EvTick]\<rparr>)"
    by (rule negative_tick_goes_round_again [where v = "-2"
          and x = "ucast (word_of_int (-2) :: 32 word)" and xs = "[]"
          and y = "ucast (word_of_int (-1) :: 32 word)" and ys = "[]"])
       (simp_all add: cb cg ex gt script_tick_def background_def)
  then show ?thesis
    by (simp add: cg numeral_2_eq_2 del: runAsync_loop.simps runSync_loop.simps Run_loop.simps)
qed

subsection \<open>C4: how often main is started\<close>

text \<open>
  The JavaScript \<open>startMain\<close> is guarded by its flag: once it has succeeded, a further
  call, direct or from \<open>runSync\<close> or \<open>runAsync\<close>, does not reach the guest.
\<close>

lemma startMain_guard:
  "mainStarted r \<Longrightarrow> startMain r m = (Inr (), r, m)"
  "startMain r m = (Inr (), r1, m1) \<Longrightarrow> mainStarted r1"
  by (auto simp: startMain_def split: if_splits prod.splits sum.splits)

text \<open>
  C4 fails in the Go harness, whose \<open>StartMain\<close> has no such guard: \<open>StartMain\<close> followed by
  \<open>Run\<close>, on a guest whose first tick returns -1, invokes \<open>go_start_main\<close> twice.
\<close>

theorem start_main_twice_go:
  "Run 1 background script_reactor_go
     (snd (StartMain script_reactor_go (start_machine [-1]))) =
       Some (Returned None, \<lparr>world = [], trace = [EvStartMain, EvStartMain, EvTick]\<rparr>)
   \<and> start_mains [EvStartMain, EvStartMain, EvTick] = 2"
proof -
  have x: "snd (StartMain script_reactor_go (start_machine [-1])) =
      \<lparr>world = [-1], trace = [EvStartMain]\<rparr>"
    by (simp add: start_machine_def StartMain_script)
  have y: "Run 1 background script_reactor_go \<lparr>world = [-1], trace = [EvStartMain]\<rparr> =
       Some (Returned None, \<lparr>world = [], trace = [EvStartMain, EvStartMain, EvTick]\<rparr>)"
    by (simp add: Run_def StartMain_script LoopOnce_script background_simps LoopIdle_def)
  have z: "start_mains [EvStartMain, EvStartMain, EvTick] = 2"
    by (simp add: start_mains_def)
  show ?thesis
    by (simp only: x y z)
qed

section \<open>Facts about instantiation\<close>

text \<open>
  C3, as stated, fails for the memory export. A module with the three entry points and no
  memory export is instantiated by both harnesses, and the initializer is invoked; the
  JavaScript harness hands the missing memory to \<open>setMemory\<close> on the way.
\<close>

theorem missing_memory_export_counterexample:
  "no_memory_exports ''memory'' = None
   \<and> createReactor (Inr no_memory_exports) forward_memory (start_machine []) =
       (Inr (new_Reactor
              \<lparr>memory_export = None, wasm_initialize = script_void,
               go_start_main = script_void, go_tick = script_tick\<rparr> forward_memory),
        \<lparr>world = [], trace = [EvSetMemory, EvInitialize]\<rparr>)
   \<and> \<not> ExportedMemory no_memory_module ''memory''
   \<and> NewReactor None None (Inr no_memory_module) (start_machine []) =
       (Inr script_reactor_go, \<lparr>world = [], trace = [EvInitialize]\<rparr>)"
proof -
  have js: "createReactor (Inr no_memory_exports) forward_memory (start_machine []) =
       (Inr (new_Reactor
              \<lparr>memory_export = None, wasm_initialize = script_void,
               go_start_main = script_void, go_tick = script_tick\<rparr> forward_memory),
        \<lparr>world = [], trace = [EvSetMemory, EvInitialize]\<rparr>)"
    by (simp add: createReactor_def no_memory_exports_def is_function_def the_function_def
          forward_memory_def start_machine_def emit_def script_void_def)
  have go: "NewReactor None None (Inr no_memory_module) (start_machine []) =
       (Inr script_reactor_go, \<lparr>world = [], trace = [EvInitialize]\<rparr>)"
    by (simp add: NewReactor_def no_memory_module_def start_machine_def emit_def
          script_void_go_def script_reactor_go_def)
  show ?thesis
    by (simp add: js go) (simp add: no_memory_exports_def no_memory_module_def)
qed

text \<open>
  C3, amended. For each of the three entry points \<open>_initialize\<close>, \<open>go_start_main\<close> and
  \<open>go_tick\<close>, checked in this order, a module without that export (and with the ones
  checked before it) fails instantiation with an error naming that export, the three
  messages being different, and neither \<open>setMemory\<close> nor the initializer is invoked (the Go
  harness closes the module). The memory export is not checked: with the three entry
  points present the initializer is invoked whether or not a memory is exported.
\<close>

theorem missing_entry_point_is_named:
  "(\<not> is_function (xs ''_initialize'') \<longrightarrow>
      createReactor (Inr xs) opts m =
        (Inl (Error ''Module does not export _initialize (not a WASI reactor?)''), m))
   \<and> (is_function (xs ''_initialize'') \<and> \<not> is_function (xs ''go_start_main'') \<longrightarrow>
      createReactor (Inr xs) opts m =
        (Inl (Error
          ''Module does not export go_start_main (not built with modified Go runtime?)''), m))
   \<and> (is_function (xs ''_initialize'') \<and> is_function (xs ''go_start_main'')
        \<and> \<not> is_function (xs ''go_tick'') \<longrightarrow>
      createReactor (Inr xs) opts m =
        (Inl (Error ''Module does not export go_tick (not built with modified Go runtime?)''), m))
   \<and> (is_function (xs ''_initialize'') \<and> is_function (xs ''go_start_main'')
        \<and> is_function (xs ''go_tick'')
        \<and> (\<forall>f. setMemory opts = Some f \<longrightarrow> fst (f (xs ''memory'') (world m)) = None) \<longrightarrow>
      trace (snd (createReactor (Inr xs) opts m)) =
        trace m @ (case setMemory opts of None \<Rightarrow> [] | Some f \<Rightarrow> [EvSetMemory]) @ [EvInitialize])
   \<and> (ExportedFunction md ''_initialize'' = None \<longrightarrow>
      NewReactor None None (Inr md) gm =
        (Inl (ErrorsNew ''module does not export _initialize (not a WASI reactor?)''),
         emit EvClose gm))
   \<and> (ExportedFunction md ''_initialize'' \<noteq> None \<and> ExportedFunction md ''go_start_main'' = None \<longrightarrow>
      NewReactor None None (Inr md) gm =
        (Inl (ErrorsNew
          ''module does not export go_start_main (not built with modified Go runtime?)''),
         emit EvClose gm))
   \<and> (ExportedFunction md ''_initialize'' \<noteq> None \<and> ExportedFunction md ''go_start_main'' \<noteq> None
        \<and> ExportedFunction md ''go_tick'' = None \<longrightarrow>
      NewReactor None None (Inr md) gm =
        (Inl (ErrorsNew ''module does not export go_tick (not built with modified Go runtime?)''),
         emit EvClose gm))
   \<and> (ExportedFunction md ''_initialize'' \<noteq> None \<and> ExportedFunction md ''go_start_main'' \<noteq> None
        \<and> ExportedFunction md ''go_tick'' \<noteq> None \<longrightarrow>
      EvInitialize \<in> set (trace (snd (NewReactor None None (Inr md) gm))))"
proof (intro conjI impI)
  show "createReactor (Inr xs) opts m =
        (Inl (Error ''Module does not export _initialize (not a WASI reactor?)''), m)"
    if "\<not> is_function (xs ''_initialize'')"
    using that by (simp add: createReactor_def)
  show "createReactor (Inr xs) opts m =
        (Inl (Error
          ''Module does not export go_start_main (not built with modified Go runtime?)''), m)"
    if "is_function (xs ''_initialize'') \<and> \<not> is_function (xs ''go_start_main'')"
    using that by (simp add: createReactor_def)
  show "createReactor (Inr xs) opts m =
        (Inl (Error ''Module does not export go_tick (not built with modified Go runtime?)''), m)"
    if "is_function (xs ''_initialize'') \<and> is_function (xs ''go_start_main'')
        \<and> \<not> is_function (xs ''go_tick'')"
    using that by (simp add: createReactor_def)
  show "trace (snd (createReactor (Inr xs) opts m)) =
        trace m @ (case setMemory opts of None \<Rightarrow> [] | Some f \<Rightarrow> [EvSetMemory]) @ [EvInitialize]"
    if "is_function (xs ''_initialize'') \<and> is_function (xs ''go_start_main'')
        \<and> is_function (xs ''go_tick'')
        \<and> (\<forall>f. setMemory opts = Some f \<longrightarrow> fst (f (xs ''memory'') (world m)) = None)"
    using that
    by (auto simp: createReactor_def emit_def Let_def split: option.splits prod.splits sum.splits)
  show "NewReactor None None (Inr md) gm =
        (Inl (ErrorsNew ''module does not export _initialize (not a WASI reactor?)''),
         emit EvClose gm)"
    if "ExportedFunction md ''_initialize'' = None"
    using that by (simp add: NewReactor_def)
  show "NewReactor None None (Inr md) gm =
        (Inl (ErrorsNew
          ''module does not export go_start_main (not built with modified Go runtime?)''),
         emit EvClose gm)"
    if "ExportedFunction md ''_initialize'' \<noteq> None \<and> ExportedFunction md ''go_start_main'' = None"
    using that by (auto simp: NewReactor_def)
  show "NewReactor None None (Inr md) gm =
        (Inl (ErrorsNew ''module does not export go_tick (not built with modified Go runtime?)''),
         emit EvClose gm)"
    if "ExportedFunction md ''_initialize'' \<noteq> None \<and> ExportedFunction md ''go_start_main'' \<noteq> None
        \<and> ExportedFunction md ''go_tick'' = None"
    using that by (auto simp: NewReactor_def)
  show "EvInitialize \<in> set (trace (snd (NewReactor None None (Inr md) gm)))"
    if "ExportedFunction md ''_initialize'' \<noteq> None \<and> ExportedFunction md ''go_start_main'' \<noteq> None
        \<and> ExportedFunction md ''go_tick'' \<noteq> None"
    using that by (auto simp: NewReactor_def emit_def split: prod.splits sum.splits)
qed

text \<open>
  The amended C3 on modules lacking each entry point in turn, and on the module with all
  three and no memory.
\<close>

theorem missing_entry_point_is_named_witness:
  "createReactor (Inr (\<lambda>name. None)) forward_memory (start_machine []) =
     (Inl (Error ''Module does not export _initialize (not a WASI reactor?)''), start_machine [])
   \<and> createReactor (Inr (no_memory_exports(''go_start_main'' := None))) forward_memory
        (start_machine []) =
     (Inl (Error ''Module does not export go_start_main (not built with modified Go runtime?)''),
      start_machine [])
   \<and> createReactor (Inr (no_memory_exports(''go_tick'' := Some ExGlobal))) forward_memory
        (start_machine []) =
     (Inl (Error ''Module does not export go_tick (not built with modified Go runtime?)''),
      start_machine [])
   \<and> trace (snd (createReactor (Inr no_memory_exports) forward_memory (start_machine []))) =
       [EvSetMemory, EvInitialize]
   \<and> NewReactor None None
        (Inr (no_memory_module\<lparr>ExportedFunction := (\<lambda>name. None)\<rparr>)) (start_machine []) =
     (Inl (ErrorsNew ''module does not export _initialize (not a WASI reactor?)''),
      emit EvClose (start_machine []))
   \<and> NewReactor None None
        (Inr (no_memory_module\<lparr>ExportedFunction :=
               (ExportedFunction no_memory_module)(''go_start_main'' := None)\<rparr>))
        (start_machine []) =
     (Inl (ErrorsNew
        ''module does not export go_start_main (not built with modified Go runtime?)''),
      emit EvClose (start_machine []))
   \<and> NewReactor None None
        (Inr (no_memory_module\<lparr>ExportedFunction :=
               (ExportedFunction no_memory_module)(''go_tick'' := None)\<rparr>))
        (start_machine []) =
     (Inl (ErrorsNew ''module does not export go_tick (not built with modified Go runtime?)''),
      emit EvClose (start_machine []))
   \<and> EvInitialize \<in> set (trace (snd (NewReactor None None (Inr no_memory_module)
        (start_machine []))))"
proof -
  let ?m = "start_machine ([] :: int list)"
  note js = missing_entry_point_is_named [where opts = forward_memory and m = ?m and gm = ?m]
  have 1: "createReactor (Inr (\<lambda>name. None)) forward_memory ?m =
     (Inl (Error ''Module does not export _initialize (not a WASI reactor?)''), ?m)"
    using js [where xs = "\<lambda>name. None" and md = no_memory_module]
    by (simp add: is_function_def)
  have 2: "createReactor (Inr (no_memory_exports(''go_start_main'' := None))) forward_memory ?m =
     (Inl (Error ''Module does not export go_start_main (not built with modified Go runtime?)''),
      ?m)"
    using js [where xs = "no_memory_exports(''go_start_main'' := None)" and md = no_memory_module]
    by (simp add: is_function_def no_memory_exports_def)
  have 3: "createReactor (Inr (no_memory_exports(''go_tick'' := Some ExGlobal))) forward_memory ?m =
     (Inl (Error ''Module does not export go_tick (not built with modified Go runtime?)''), ?m)"
    using js [where xs = "no_memory_exports(''go_tick'' := Some ExGlobal)"
                and md = no_memory_module]
    by (simp add: is_function_def no_memory_exports_def)
  have 4: "trace (snd (createReactor (Inr no_memory_exports) forward_memory ?m)) =
       [EvSetMemory, EvInitialize]"
    using js [where xs = no_memory_exports and md = no_memory_module]
    by (simp add: is_function_def no_memory_exports_def forward_memory_def start_machine_def)
  have 5: "NewReactor None None
        (Inr (no_memory_module\<lparr>ExportedFunction := (\<lambda>name. None)\<rparr>)) ?m =
     (Inl (ErrorsNew ''module does not export _initialize (not a WASI reactor?)''),
      emit EvClose ?m)"
    using js [where xs = no_memory_exports
                and md = "no_memory_module\<lparr>ExportedFunction := (\<lambda>name. None)\<rparr>"]
    by simp
  have 6: "NewReactor None None
        (Inr (no_memory_module\<lparr>ExportedFunction :=
               (ExportedFunction no_memory_module)(''go_start_main'' := None)\<rparr>)) ?m =
     (Inl (ErrorsNew
        ''module does not export go_start_main (not built with modified Go runtime?)''),
      emit EvClose ?m)"
    using js [where xs = no_memory_exports
                and md = "no_memory_module\<lparr>ExportedFunction :=
               (ExportedFunction no_memory_module)(''go_start_main'' := None)\<rparr>"]
    by (simp add: no_memory_module_def)
  have 7: "NewReactor None None
        (Inr (no_memory_module\<lparr>ExportedFunction :=
               (ExportedFunction no_memory_module)(''go_tick'' := None)\<rparr>)) ?m =
     (Inl (ErrorsNew ''module does not export go_tick (not built with modified Go runtime?)''),
      emit EvClose ?m)"
    using js [where xs = no_memory_exports
                and md = "no_memory_module\<lparr>ExportedFunction :=
               (ExportedFunction no_memory_module)(''go_tick'' := None)\<rparr>"]
    by (simp add: no_memory_module_def)
  have 8: "EvInitialize \<in> set (trace (snd (NewReactor None None (Inr no_memory_module) ?m)))"
    using js [where xs = no_memory_exports and md = no_memory_module]
    by (simp add: no_memory_module_def)
  show ?thesis
    by (intro conjI) (rule 1, rule 2, rule 3, rule 4, rule 5, rule 6, rule 7, rule 8)
qed

section \<open>Facts about the memory accessors and the encoders\<close>

lemma length_le_bytes [simp]: "length (le_bytes n v) = n"
  by (simp add: le_bytes_def)

lemma length_store [simp]:
  "off + length bs \<le> length buf \<Longrightarrow> length (store off bs buf) = length buf"
  by (simp add: store_def)

lemma store_nth:
  assumes "off + length bs \<le> length buf" "i < length buf"
  shows "store off bs buf ! i =
           (if off \<le> i \<and> i < off + length bs then bs ! (i - off) else buf ! i)"
  using assms by (auto simp: store_def nth_append min_def)

lemma read_store_same:
  assumes "off + length bs \<le> length buf"
  shows "take (length bs) (drop off (store off bs buf)) = bs"
  using assms by (simp add: store_def min_def)

lemma read_store_other:
  assumes "off + length bs \<le> length buf" "p + n \<le> off \<or> off + length bs \<le> p"
  shows "take n (drop p (store off bs buf)) = take n (drop p buf)"
proof (rule nth_equalityI)
  show "length (take n (drop p (store off bs buf))) = length (take n (drop p buf))"
    using assms by simp
next
  fix i assume "i < length (take n (drop p (store off bs buf)))"
  then have i: "i < n" "p + i < length buf" using assms by auto
  then show "take n (drop p (store off bs buf)) ! i = take n (drop p buf) ! i"
    using assms by (auto simp: store_nth)
qed

lemma le_value_le_bytes: "le_value (le_bytes n v) = v mod 256 ^ n"
proof (induction n arbitrary: v)
  case 0
  then show ?case by (simp add: le_bytes_def le_value_def)
next
  case (Suc n)
  have "le_bytes (Suc n) v = word_of_int v # le_bytes n (v div 256)"
    by (simp add: le_bytes_def upt_conv_Cons map_Suc_upt [symmetric] zdiv_zmult2_eq
          del: upt_Suc) 
  moreover have "uint (word_of_int v :: 8 word) = v mod 256"
    by (simp add: uint_word_of_int)
  ultimately show ?case
    using Suc.IH [of "v div 256"]
    by (simp add: le_value_def zmod_zmult2_eq)
qed

lemma setUint_ok:
  "in_view off n buf \<Longrightarrow> setUint n off v buf = Inr (store (nat off) (le_bytes n v) buf)"
  by (simp add: setUint_def)

lemma setUint_fails: "\<not> in_view off n buf \<Longrightarrow> setUint n off v buf = Inl out_of_bounds"
  by (simp add: setUint_def)

lemma getUint_fails: "\<not> in_view off n buf \<Longrightarrow> getUint n off buf = Inl out_of_bounds"
  by (simp add: getUint_def)

lemma in_view_store [simp]:
  "off + length bs \<le> length buf \<Longrightarrow> in_view p n (store off bs buf) = in_view p n buf"
  by (simp add: in_view_def)

lemma getUint_setUint_same:
  "in_view off n buf \<Longrightarrow> getUint n off (store (nat off) (le_bytes n v) buf) = Inr (v mod 256 ^ n)"
  by (simp add: getUint_def in_view_def read_store_same [where bs = "le_bytes n v", simplified]
        le_value_le_bytes)

lemma bufSize_of_packed: "bufSize_of strs = int (packed_size strs)"
  by (induction strs) (simp_all add: bufSize_of_def packed_size_def)

lemma packed_size_Cons [simp]:
  "packed_size (a # strs) = length (encode a) + 1 + packed_size strs"
  by (simp add: packed_size_def)

lemma packed_size_Nil [simp]: "packed_size [] = 0"
  by (simp add: packed_size_def)

lemma slice_eqI:
  assumes "length a = length b" "\<And>q. p \<le> q \<Longrightarrow> q < p + n \<Longrightarrow> q < length a \<Longrightarrow> a ! q = b ! q"
  shows "take n (drop p a) = take n (drop p b)"
proof (rule nth_equalityI)
  show "length (take n (drop p a)) = length (take n (drop p b))" using assms(1) by simp
next
  fix i assume "i < length (take n (drop p a))"
  then have "i < n" "p + i < length a" by auto
  then show "take n (drop p a) ! i = take n (drop p b) ! i"
    using assms by simp
qed

lemma slice_store_same:
  assumes "off + length bs \<le> length buf"
  shows "take (length bs) (drop off (store off bs buf)) = bs"
  using assms by (simp add: store_def min_def)

lemma length_round_buf:
  assumes "slot + 4 \<le> length buf" "off + length (encode a) + 1 \<le> length buf"
  shows "length (round_buf a slot off buf) = length buf"
  using assms by (simp add: round_buf_def)

lemma round_buf_nth:
  assumes "slot + 4 \<le> length buf" "off + length (encode a) + 1 \<le> length buf"
     "slot + 4 \<le> off \<or> off + length (encode a) + 1 \<le> slot" "q < length buf"
  shows "round_buf a slot off buf ! q =
           (if off \<le> q \<and> q < off + length (encode a) then encode a ! (q - off)
            else if q = off + length (encode a) then 0
            else if slot \<le> q \<and> q < slot + 4 then le_bytes 4 (int off) ! (q - slot)
            else buf ! q)"
  using assms by (auto simp: round_buf_def nth_list_update store_nth)

lemma strings_get_loop_step:
  assumes "ptr + 4 * i + 4 \<le> length buf" "off + length (encode a) + 1 \<le> length buf"
  shows "strings_get_loop (a # rest) (int i) (int ptr) (int off) buf =
           strings_get_loop rest (int (Suc i)) (int ptr) (int (off + length (encode a) + 1))
             (round_buf a (ptr + 4 * i) off buf)"
proof -
  have v: "in_view (int ptr + int i * 4) 4 buf"
    using assms by (simp add: in_view_def nat_add_distrib nat_mult_distrib)
  have n: "nat (int ptr + int i * 4) = ptr + 4 * i"
    by (simp add: nat_add_distrib nat_mult_distrib)
  have s: "u8_set (encode a) (int off) (store (ptr + 4 * i) (le_bytes 4 (int off)) buf)
      = Inr (store off (encode a) (store (ptr + 4 * i) (le_bytes 4 (int off)) buf))"
    using assms by (simp add: u8_set_def)
  have u: "u8_assign (int off + int (length (encode a))) 0 b = b[off + length (encode a) := 0]"
    if "length b = length buf" for b
    using assms that by (simp add: u8_assign_def nat_add_distrib)
  show ?thesis
    using assms
    by (simp add: setUint_ok [OF v] n s u round_buf_def Let_def add.commute add.left_commute)
qed


lemma offset_of_bounds:
  "k < length strs \<Longrightarrow>
     off \<le> offset_of off strs k
     \<and> offset_of off strs k + length (encode (strs ! k)) + 1 \<le> off + packed_size strs"
proof (induction strs arbitrary: off k)
  case Nil
  then show ?case by simp
next
  case (Cons a rest)
  show ?case
  proof (cases k)
    case 0
    then show ?thesis by simp
  next
    case (Suc k')
    with Cons.prems have "k' < length rest" by simp
    from Cons.IH [OF this, of "off + length (encode a) + 1"] Suc show ?thesis by simp
  qed
qed

lemma strings_get_loop_layout:
  assumes "ptr + 4 * (i + length strs) \<le> length buf" "off + packed_size strs \<le> length buf"
     "ptr + 4 * (i + length strs) \<le> off \<or> off + packed_size strs \<le> ptr + 4 * i"
  shows "\<exists>buf'. strings_get_loop strs (int i) (int ptr) (int off) buf = (Inr 0, buf')
     \<and> length buf' = length buf
     \<and> (\<forall>k<length strs.
           (\<forall>j<4. buf' ! (ptr + 4 * (i + k) + j) = le_bytes 4 (int (offset_of off strs k)) ! j)
         \<and> (\<forall>j<length (encode (strs ! k)).
               buf' ! (offset_of off strs k + j) = encode (strs ! k) ! j)
         \<and> buf' ! (offset_of off strs k + length (encode (strs ! k))) = 0)
     \<and> (\<forall>q<length buf. \<not> (ptr + 4 * i \<le> q \<and> q < ptr + 4 * (i + length strs))
           \<and> \<not> (off \<le> q \<and> q < off + packed_size strs) \<longrightarrow> buf' ! q = buf ! q)"
  using assms
proof (induction strs arbitrary: i off buf)
  case Nil
  then show ?case by simp
next
  case (Cons a rest)
  let ?len = "length (encode a)"
  let ?slot = "ptr + 4 * i"
  let ?b3 = "round_buf a ?slot off buf"
  let ?off' = "off + ?len + 1"
  have pre: "?slot + 4 \<le> length buf" "off + ?len + 1 \<le> length buf"
    "?slot + 4 \<le> off \<or> off + ?len + 1 \<le> ?slot"
    using Cons.prems by auto
  have len3: "length ?b3 = length buf"
    using pre by (simp add: length_round_buf)
  have step: "strings_get_loop (a # rest) (int i) (int ptr) (int off) buf =
      strings_get_loop rest (int (Suc i)) (int ptr) (int ?off') ?b3"
    by (rule strings_get_loop_step) (use pre in auto)
  have "\<exists>buf'. strings_get_loop rest (int (Suc i)) (int ptr) (int ?off') ?b3 = (Inr 0, buf')
     \<and> length buf' = length ?b3
     \<and> (\<forall>k<length rest.
           (\<forall>j<4. buf' ! (ptr + 4 * (Suc i + k) + j) = le_bytes 4 (int (offset_of ?off' rest k)) ! j)
         \<and> (\<forall>j<length (encode (rest ! k)).
               buf' ! (offset_of ?off' rest k + j) = encode (rest ! k) ! j)
         \<and> buf' ! (offset_of ?off' rest k + length (encode (rest ! k))) = 0)
     \<and> (\<forall>q<length ?b3. \<not> (ptr + 4 * Suc i \<le> q \<and> q < ptr + 4 * (Suc i + length rest))
           \<and> \<not> (?off' \<le> q \<and> q < ?off' + packed_size rest) \<longrightarrow> buf' ! q = ?b3 ! q)"
    using Cons.prems len3 by (intro Cons.IH) auto
  then obtain buf' where
    r: "strings_get_loop rest (int (Suc i)) (int ptr) (int ?off') ?b3 = (Inr 0, buf')"
    and l: "length buf' = length buf"
    and inner: "\<And>k. k < length rest \<Longrightarrow>
           (\<forall>j<4. buf' ! (ptr + 4 * (Suc i + k) + j) = le_bytes 4 (int (offset_of ?off' rest k)) ! j)
         \<and> (\<forall>j<length (encode (rest ! k)).
               buf' ! (offset_of ?off' rest k + j) = encode (rest ! k) ! j)
         \<and> buf' ! (offset_of ?off' rest k + length (encode (rest ! k))) = 0"
    and frame: "\<And>q. q < length buf \<Longrightarrow>
           \<not> (ptr + 4 * Suc i \<le> q \<and> q < ptr + 4 * (Suc i + length rest)) \<Longrightarrow>
           \<not> (?off' \<le> q \<and> q < ?off' + packed_size rest) \<Longrightarrow> buf' ! q = ?b3 ! q"
    using len3 by auto
  have b3: "?b3 ! q =
           (if off \<le> q \<and> q < off + ?len then encode a ! (q - off)
            else if q = off + ?len then 0
            else if ?slot \<le> q \<and> q < ?slot + 4 then le_bytes 4 (int off) ! (q - ?slot)
            else buf ! q)" if "q < length buf" for q
    using pre that by (rule round_buf_nth)
  have head_slot: "buf' ! (?slot + j) = le_bytes 4 (int off) ! j" if "j < 4" for j
  proof -
    have "buf' ! (?slot + j) = ?b3 ! (?slot + j)"
      using that pre Cons.prems by (intro frame) auto
    also have "\<dots> = le_bytes 4 (int off) ! j"
      using that pre by (subst b3) auto
    finally show ?thesis .
  qed
  have head_bytes: "buf' ! (off + j) = encode a ! j" if "j < ?len" for j
  proof -
    have "buf' ! (off + j) = ?b3 ! (off + j)"
      using that pre Cons.prems by (intro frame) auto
    also have "\<dots> = encode a ! j"
      using that pre by (subst b3) auto
    finally show ?thesis .
  qed
  have head_nul: "buf' ! (off + ?len) = 0"
  proof -
    have "buf' ! (off + ?len) = ?b3 ! (off + ?len)"
      using pre Cons.prems by (intro frame) auto
    also have "\<dots> = 0"
      using pre by (subst b3) auto
    finally show ?thesis .
  qed
  have outer: "buf' ! q = buf ! q"
    if "q < length buf" "\<not> (?slot \<le> q \<and> q < ptr + 4 * (i + length (a # rest)))"
       "\<not> (off \<le> q \<and> q < off + packed_size (a # rest))" for q
  proof -
    have "buf' ! q = ?b3 ! q"
      using that by (intro frame) auto
    also have "\<dots> = buf ! q"
      using that by (subst b3) auto
    finally show ?thesis .
  qed
  have all: "(\<forall>j<4. buf' ! (ptr + 4 * (i + k) + j)
                = le_bytes 4 (int (offset_of off (a # rest) k)) ! j)
         \<and> (\<forall>j<length (encode ((a # rest) ! k)).
               buf' ! (offset_of off (a # rest) k + j) = encode ((a # rest) ! k) ! j)
         \<and> buf' ! (offset_of off (a # rest) k + length (encode ((a # rest) ! k))) = 0"
    if "k < length (a # rest)" for k
  proof (cases k)
    case 0
    then show ?thesis using head_slot head_bytes head_nul by simp
  next
    case (Suc k')
    with that have "k' < length rest" by simp
    from inner [OF this] Suc show ?thesis by simp
  qed
  show ?case
    using step r l all outer by (intro exI [of _ buf']) simp
qed

lemma unat_byte: "x < 256 \<Longrightarrow> unat (of_nat x :: 8 word) = x"
  by (simp add: unat_of_nat)

lemma dec_ascii: "n < 0x80 \<Longrightarrow> utf8_decode 0 0 0x80 0xBF (of_nat n # bs) = n # utf8_decode 0 0 0x80 0xBF bs"
  by (simp add: unat_byte)

lemma dec_lead2: "0xC2 \<le> n \<Longrightarrow> n \<le> 0xDF \<Longrightarrow>
    utf8_decode 0 0 0x80 0xBF (of_nat n # bs) = utf8_decode (n mod 32) (Suc 0) 0x80 0xBF bs"
  by (simp add: unat_byte)

lemma dec_lead3: "0xE0 \<le> n \<Longrightarrow> n \<le> 0xEF \<Longrightarrow>
    utf8_decode 0 0 0x80 0xBF (of_nat n # bs) =
      utf8_decode (n mod 16) (Suc (Suc 0)) (if n = 0xE0 then 0xA0 else 0x80) (if n = 0xED then 0x9F else 0xBF) bs"
  by (simp add: unat_byte numeral_2_eq_2 [symmetric])

lemma dec_lead4: "0xF0 \<le> n \<Longrightarrow> n \<le> 0xF4 \<Longrightarrow>
    utf8_decode 0 0 0x80 0xBF (of_nat n # bs) =
      utf8_decode (n mod 8) (Suc (Suc (Suc 0))) (if n = 0xF0 then 0x90 else 0x80) (if n = 0xF4 then 0x8F else 0xBF) bs"
  by (simp add: unat_byte numeral_3_eq_3 [symmetric])

lemma dec_last: "n < 256 \<Longrightarrow> lo \<le> n \<Longrightarrow> n \<le> hi \<Longrightarrow>
    utf8_decode cp (Suc 0) lo hi (of_nat n # bs) = (cp * 64 + n mod 64) # utf8_decode 0 0 0x80 0xBF bs"
  by (simp add: unat_byte)

lemma dec_cont: "n < 256 \<Longrightarrow> lo \<le> n \<Longrightarrow> n \<le> hi \<Longrightarrow>
    utf8_decode cp (Suc (Suc k)) lo hi (of_nat n # bs) =
      utf8_decode (cp * 64 + n mod 64) (Suc k) 0x80 0xBF bs"
  by (simp add: unat_byte)


lemma add_mod_small: "x < m \<Longrightarrow> ((c::nat) * m + x) mod m = x"
  by simp

lemma m32: "q < 32 \<Longrightarrow> (192 + q) mod 32 = (q::nat)"
  using add_mod_small [of q 32 6] by simp
lemma m64: "r < 64 \<Longrightarrow> (128 + r) mod 64 = (r::nat)"
  using add_mod_small [of r 64 2] by simp
lemma m16: "q < 16 \<Longrightarrow> (224 + q) mod 16 = (q::nat)"
  using add_mod_small [of q 16 14] by simp
lemma m8: "q < 8 \<Longrightarrow> (240 + q) mod 8 = (q::nat)"
  using add_mod_small [of q 8 30] by simp

lemma split64: "(cp::nat) div 64 * 64 + cp mod 64 = cp" by simp
lemma split4096: "((cp::nat) div 4096 * 64 + cp div 64 mod 64) * 64 + cp mod 64 = cp"
proof -
  have "cp div 4096 = cp div 64 div 64" by (simp add: div_mult2_eq)
  then show ?thesis by simp
qed
lemma split262144:
  "(((cp::nat) div 262144 * 64 + cp div 4096 mod 64) * 64 + cp div 64 mod 64) * 64 + cp mod 64 = cp"
proof -
  have "cp div 262144 = cp div 4096 div 64" by (simp add: div_mult2_eq)
  moreover have "cp div 4096 = cp div 64 div 64" by (simp add: div_mult2_eq)
  ultimately show ?thesis by simp
qed

lemma f2: fixes cp :: nat assumes "0x80 \<le> cp" "cp < 0x800"
  defines "n1 \<equiv> 0xC0 + cp div 64" and "n2 \<equiv> 0x80 + cp mod 64"
  shows "0xC2 \<le> n1" "n1 \<le> 0xDF" "n2 < 256" "0x80 \<le> n2" "n2 \<le> 0xBF"
      "n1 mod 32 * 64 + n2 mod 64 = cp"
proof -
  have d: "2 \<le> cp div 64" "cp div 64 < 32" using assms(1,2) by auto
  have m: "cp mod 64 < 64" by simp
  show "0xC2 \<le> n1" "n1 \<le> 0xDF" "n2 < 256" "0x80 \<le> n2" "n2 \<le> 0xBF"
    using d m by (simp_all add: n1_def n2_def)
  show "n1 mod 32 * 64 + n2 mod 64 = cp"
    unfolding n1_def n2_def by (simp only: m32 [OF d(2)] m64 [OF m] split64)
qed

lemma div_lt: "(cp::nat) < n * 64 \<Longrightarrow> cp div 64 < n"
  by (simp add: div_less_iff_less_mult)
lemma div_ge: "n * 64 \<le> (cp::nat) \<Longrightarrow> n \<le> cp div 64"
  by (simp add: less_eq_div_iff_mult_less_eq)
lemma div4096_lt: "(cp::nat) < n * 4096 \<Longrightarrow> cp div 4096 < n"
  by (simp add: div_less_iff_less_mult)
lemma div4096_ge: "n * 4096 \<le> (cp::nat) \<Longrightarrow> n \<le> cp div 4096"
  by (simp add: less_eq_div_iff_mult_less_eq)
lemma div4096_eq: "(cp::nat) div 4096 = k \<Longrightarrow> k * 4096 \<le> cp \<and> cp < (k + 1) * 4096"
proof -
  assume h: "cp div 4096 = k"
  have "cp div 4096 * 4096 + cp mod 4096 = cp" by simp
  moreover have "cp mod 4096 < 4096" by simp
  ultimately have "cp div 4096 * 4096 \<le> cp \<and> cp < cp div 4096 * 4096 + 4096" by linarith
  with h show ?thesis by simp
qed
lemma mod_window: "k * 64 \<le> (q::nat) \<Longrightarrow> q < k * 64 + 64 \<Longrightarrow> q mod 64 = q - k * 64"
proof -
  assume a: "k * 64 \<le> q" "q < k * 64 + 64"
  then have "q = k * 64 + (q - k * 64)" "q - k * 64 < 64" by auto
  then show ?thesis by (metis add_mod_small)
qed

lemma f3: fixes cp :: nat assumes "0x800 \<le> cp" "cp < 0x10000" "\<not> (0xD800 \<le> cp \<and> cp \<le> 0xDFFF)"
  defines "n1 \<equiv> 0xE0 + cp div 4096" and "n2 \<equiv> 0x80 + cp div 64 mod 64"
    and "n3 \<equiv> 0x80 + cp mod 64"
  shows "0xE0 \<le> n1" "n1 \<le> 0xEF" "n2 < 256"
      "(if n1 = 0xE0 then 0xA0 else 0x80) \<le> n2" "n2 \<le> (if n1 = 0xED then 0x9F else 0xBF)"
      "n3 < 256" "0x80 \<le> n3" "n3 \<le> 0xBF"
      "(n1 mod 16 * 64 + n2 mod 64) * 64 + n3 mod 64 = cp"
proof -
  have d: "cp div 4096 < 16" using assms(2) by (intro div4096_lt) simp
  have m: "cp mod 64 < 64" "cp div 64 mod 64 < 64" by simp_all
  show "0xE0 \<le> n1" "n1 \<le> 0xEF" "n2 < 256" "n3 < 256" "0x80 \<le> n3" "n3 \<le> 0xBF"
    using d m by (simp_all add: n1_def n2_def n3_def)
  have lo: "32 \<le> cp div 64 mod 64" if "cp div 4096 = 0"
  proof -
    from div4096_eq [OF that] have "cp < 64 * 64" by simp
    then have "cp div 64 < 64" by (rule div_lt)
    moreover have "32 \<le> cp div 64" using assms(1) by (intro div_ge) simp
    ultimately show ?thesis by simp
  qed
  show "(if n1 = 0xE0 then 0xA0 else 0x80) \<le> n2"
    using lo by (simp add: n1_def n2_def)
  have hi: "cp div 64 mod 64 < 32" if "cp div 4096 = 13"
  proof -
    from div4096_eq [OF that] have "53248 \<le> cp" "cp < 57344" by simp_all
    with assms(3) have b: "13 * 64 * 64 \<le> cp" "cp < 864 * 64" by simp_all
    have q: "13 * 64 \<le> cp div 64" "cp div 64 < 864"
      using b by (simp_all add: div_ge div_lt)
    then have "cp div 64 mod 64 = cp div 64 - 13 * 64"
      by (intro mod_window) simp_all
    with q show ?thesis by simp
  qed
  show "n2 \<le> (if n1 = 0xED then 0x9F else 0xBF)"
  proof (cases "cp div 4096 = 13")
    case True
    with hi have "cp div 64 mod 64 < 32" by simp
    with True show ?thesis by (simp add: n1_def n2_def)
  next
    case False
    with m(2) show ?thesis by (simp add: n1_def n2_def)
  qed
  show "(n1 mod 16 * 64 + n2 mod 64) * 64 + n3 mod 64 = cp"
    unfolding n1_def n2_def n3_def by (simp only: m16 [OF d] m64 [OF m(1)] m64 [OF m(2)] split4096)
qed


lemma div262144_lt: "(cp::nat) < n * 262144 \<Longrightarrow> cp div 262144 < n"
  by (simp add: div_less_iff_less_mult)
lemma div262144_eq:
  "(cp::nat) div 262144 = k \<Longrightarrow> k * 262144 \<le> cp \<and> cp < (k + 1) * 262144"
proof -
  assume h: "cp div 262144 = k"
  have "cp div 262144 * 262144 + cp mod 262144 = cp" by simp
  moreover have "cp mod 262144 < 262144" by simp
  ultimately have "cp div 262144 * 262144 \<le> cp \<and> cp < cp div 262144 * 262144 + 262144"
    by linarith
  with h show ?thesis by simp
qed

lemma f4: fixes cp :: nat assumes "0x10000 \<le> cp" "cp < 0x110000"
  defines "n1 \<equiv> 0xF0 + cp div 262144" and "n2 \<equiv> 0x80 + cp div 4096 mod 64"
    and "n3 \<equiv> 0x80 + cp div 64 mod 64" and "n4 \<equiv> 0x80 + cp mod 64"
  shows "0xF0 \<le> n1" "n1 \<le> 0xF4" "n2 < 256"
      "(if n1 = 0xF0 then 0x90 else 0x80) \<le> n2" "n2 \<le> (if n1 = 0xF4 then 0x8F else 0xBF)"
      "n3 < 256" "0x80 \<le> n3" "n3 \<le> 0xBF"
      "n4 < 256" "0x80 \<le> n4" "n4 \<le> 0xBF"
      "((n1 mod 8 * 64 + n2 mod 64) * 64 + n3 mod 64) * 64 + n4 mod 64 = cp"
proof -
  have d: "cp div 262144 < 5" using assms(2) by (intro div262144_lt) simp
  then have d8: "cp div 262144 < 8" by simp
  have m: "cp mod 64 < 64" "cp div 64 mod 64 < 64" "cp div 4096 mod 64 < 64" by simp_all
  show "0xF0 \<le> n1" "n1 \<le> 0xF4" "n2 < 256" "n3 < 256" "0x80 \<le> n3" "n3 \<le> 0xBF"
      "n4 < 256" "0x80 \<le> n4" "n4 \<le> 0xBF"
    using d m by (simp_all add: n1_def n2_def n3_def n4_def)
  have q64: "cp div 4096 mod 64 = cp div 4096 - k * 64"
    if "k * 64 \<le> cp div 4096" "cp div 4096 < k * 64 + 64" for k
    using that by (rule mod_window)
  have lo: "16 \<le> cp div 4096 mod 64" if "cp div 262144 = 0"
  proof -
    from div262144_eq [OF that] have "cp < 64 * 4096" by simp
    then have "cp div 4096 < 64" by (rule div4096_lt)
    moreover have "16 \<le> cp div 4096" using assms(1) by (intro div4096_ge) simp
    ultimately show ?thesis by simp
  qed
  have hi: "cp div 4096 mod 64 < 16" if "cp div 262144 = 4"
  proof -
    from div262144_eq [OF that] have "4 * 64 * 4096 \<le> cp" by simp
    moreover have "cp < 272 * 4096" using assms(2) by simp
    ultimately have q: "4 * 64 \<le> cp div 4096" "cp div 4096 < 272"
      by (simp_all add: div4096_ge div4096_lt)
    then have "cp div 4096 mod 64 = cp div 4096 - 4 * 64"
      by (intro q64) simp_all
    with q show ?thesis by simp
  qed
  show "(if n1 = 0xF0 then 0x90 else 0x80) \<le> n2"
    using lo by (simp add: n1_def n2_def)
  show "n2 \<le> (if n1 = 0xF4 then 0x8F else 0xBF)"
  proof (cases "cp div 262144 = 4")
    case True
    with hi have "cp div 4096 mod 64 < 16" by simp
    with True show ?thesis by (simp add: n1_def n2_def)
  next
    case False
    with m(3) show ?thesis by (simp add: n1_def n2_def)
  qed
  show "((n1 mod 8 * 64 + n2 mod 64) * 64 + n3 mod 64) * 64 + n4 mod 64 = cp"
    unfolding n1_def n2_def n3_def n4_def
    by (simp only: m8 [OF d8] m64 [OF m(1)] m64 [OF m(2)] m64 [OF m(3)] split262144)
qed

lemma dec_utf8_of:
  assumes "scalar cp"
  shows "utf8_decode 0 0 0x80 0xBF (utf8_of cp @ rest) = cp # utf8_decode 0 0 0x80 0xBF rest"
proof -
  consider "cp < 0x80" | "0x80 \<le> cp" "cp < 0x800" | "0x800 \<le> cp" "cp < 0x10000"
    | "0x10000 \<le> cp" by linarith
  then show ?thesis
  proof cases
    case 1
    then have "utf8_of cp @ rest = of_nat cp # rest" by (simp add: utf8_of_def)
    with 1 show ?thesis by (simp only: dec_ascii)
  next
    case 2
    have eq: "utf8_of cp @ rest =
        of_nat (0xC0 + cp div 64) # of_nat (0x80 + cp mod 64) # rest"
      using 2 by (simp add: utf8_of_def)
    note f = f2 [OF 2]
    show ?thesis
      unfolding eq by (simp only: dec_lead2 [OF f(1,2)] dec_last [OF f(3,4,5)] f(6))
  next
    case 3
    have eq: "utf8_of cp @ rest =
        of_nat (0xE0 + cp div 4096) # of_nat (0x80 + cp div 64 mod 64)
          # of_nat (0x80 + cp mod 64) # rest"
      using 3 by (simp add: utf8_of_def)
    have ns: "\<not> (0xD800 \<le> cp \<and> cp \<le> 0xDFFF)" using assms by (simp add: scalar_def)
    note f = f3 [OF 3 ns]
    show ?thesis
      unfolding eq
      by (simp only: dec_lead3 [OF f(1,2)] dec_cont [OF f(3,4,5)] dec_last [OF f(6,7,8)] f(9))
  next
    case 4
    have eq: "utf8_of cp @ rest =
        of_nat (0xF0 + cp div 262144) # of_nat (0x80 + cp div 4096 mod 64)
          # of_nat (0x80 + cp div 64 mod 64) # of_nat (0x80 + cp mod 64) # rest"
      using 4 by (simp add: utf8_of_def)
    have lt: "cp < 0x110000" using assms by (simp add: scalar_def)
    note f = f4 [OF 4 lt]
    show ?thesis
      unfolding eq
      by (simp only: dec_lead4 [OF f(1,2)] dec_cont [OF f(3,4,5)] dec_cont [OF f(6,7,8)]
            dec_last [OF f(9,10,11)] f(12))
  qed
qed

lemma unat16_lt: "unat (u :: 16 word) < 65536"
  using unsigned_less [of u, where 'a = nat] by simp

lemma lone_scalar: "scalar (lone u)"
  using unat16_lt [of u] by (auto simp: lone_def scalar_def is_high_def is_low_def)

lemma pair_scalar:
  "is_high u \<Longrightarrow> is_low l \<Longrightarrow> scalar (0x10000 + (unat u - 0xD800) * 0x400 + (unat l - 0xDC00))"
proof -
  assume "is_high u" "is_low l"
  then have a: "unat u - 0xD800 \<le> 0x3FF" "unat l - 0xDC00 \<le> 0x3FF"
    by (auto simp: is_high_def is_low_def)
  then have "(unat u - 0xD800) * 0x400 \<le> 0x3FF * 0x400"
    by (intro mult_le_mono1) 
  with a show ?thesis by (simp add: scalar_def)
qed

lemma scalar_values_scalar: "cp \<in> set (scalar_values s) \<Longrightarrow> scalar cp"
  by (induction s arbitrary: cp rule: scalar_values.induct)
     (auto simp: lone_scalar pair_scalar split: if_splits)

lemma lone_zero: "lone u = 0 \<longleftrightarrow> u = 0"
  by (auto simp: lone_def unat_eq_0 is_high_def is_low_def)

lemma scalar_values_nonzero: "0 \<notin> set s \<Longrightarrow> 0 \<notin> set (scalar_values s)"
  by (induction s rule: scalar_values.induct) (auto simp: lone_zero split: if_splits)

lemma byte_nonzero: "0 < n \<Longrightarrow> n < 256 \<Longrightarrow> (of_nat n :: 8 word) \<noteq> 0"
  using unat_byte [of n] by (metis less_numeral_extra(3) unat_0)

lemma notin_list:
  "a \<noteq> x \<Longrightarrow> b \<noteq> x \<Longrightarrow> x \<notin> set [a, b]"
  "a \<noteq> x \<Longrightarrow> b \<noteq> x \<Longrightarrow> c \<noteq> x \<Longrightarrow> x \<notin> set [a, b, c]"
  "a \<noteq> x \<Longrightarrow> b \<noteq> x \<Longrightarrow> c \<noteq> x \<Longrightarrow> d \<noteq> x \<Longrightarrow> x \<notin> set [a, b, c, d]"
  by auto

lemma byte_nonzero': "0x80 \<le> n \<Longrightarrow> n \<le> 0xFF \<Longrightarrow> (of_nat n :: 8 word) \<noteq> 0"
  by (rule byte_nonzero) simp_all

lemma utf8_of_nonzero:
  assumes "scalar cp" "cp \<noteq> 0"
  shows "0 \<notin> set (utf8_of cp)"
proof -
  consider "cp < 0x80" | "0x80 \<le> cp" "cp < 0x800" | "0x800 \<le> cp" "cp < 0x10000"
    | "0x10000 \<le> cp" by linarith
  then show ?thesis
  proof cases
    case 1
    with assms(2) byte_nonzero [of cp] show ?thesis by (simp add: utf8_of_def)
  next
    case 2
    have eq: "utf8_of cp = [of_nat (0xC0 + cp div 64), of_nat (0x80 + cp mod 64)]"
      using 2 by (simp add: utf8_of_def)
    note f = f2(1-5) [OF 2]
    show ?thesis
      unfolding eq
      by (rule notin_list; rule byte_nonzero'; (use f in linarith))
  next
    case 3
    have eq: "utf8_of cp =
        [of_nat (0xE0 + cp div 4096), of_nat (0x80 + cp div 64 mod 64), of_nat (0x80 + cp mod 64)]"
      using 3 by (simp add: utf8_of_def)
    have ns: "\<not> (0xD800 \<le> cp \<and> cp \<le> 0xDFFF)" using assms by (simp add: scalar_def)
    note f = f3(1-3,6-8) [OF 3 ns]
    have g: "0x80 \<le> 0x80 + cp div 64 mod 64" by simp
    show ?thesis
      unfolding eq
      by (rule notin_list; rule byte_nonzero'; (use f g in linarith))
  next
    case 4
    have eq: "utf8_of cp =
        [of_nat (0xF0 + cp div 262144), of_nat (0x80 + cp div 4096 mod 64),
         of_nat (0x80 + cp div 64 mod 64), of_nat (0x80 + cp mod 64)]"
      using 4 by (simp add: utf8_of_def)
    have lt: "cp < 0x110000" using assms by (simp add: scalar_def)
    note f = f4(1-3,6-11) [OF 4 lt]
    have g: "0x80 \<le> 0x80 + cp div 4096 mod 64" by simp
    show ?thesis
      unfolding eq
      by (rule notin_list; rule byte_nonzero'; (use f g in linarith))
  qed
qed

lemma encode_nonzero:
  assumes "0 \<notin> set s"
  shows "0 \<notin> set (encode s)"
proof
  assume "0 \<in> set (encode s)"
  then obtain cp where cp: "cp \<in> set (scalar_values s)" "0 \<in> set (utf8_of cp)"
    by (auto simp: encode_def)
  from cp(1) have "scalar cp" by (rule scalar_values_scalar)
  moreover have "cp \<noteq> 0"
  proof
    assume "cp = 0"
    with cp(1) scalar_values_nonzero [OF assms] show False by simp
  qed
  ultimately have "0 \<notin> set (utf8_of cp)" by (rule utf8_of_nonzero)
  with cp(2) show False by simp
qed

lemma c_string_at:
  assumes "p + length e < length buf" "\<And>j. j < length e \<Longrightarrow> buf ! (p + j) = e ! j"
    "buf ! (p + length e) = 0" "0 \<notin> set e"
  shows "c_string buf p = e"
proof -
  have t: "take (length e) (drop p buf) = e"
    using assms(1,2) by (intro nth_equalityI) auto
  have d: "drop (length e) (drop p buf) = 0 # drop (Suc (p + length e)) buf"
    using assms(1,3) Cons_nth_drop_Suc [of "p + length e" buf] by (simp add: add.commute)
  have "drop p buf = take (length e) (drop p buf) @ drop (length e) (drop p buf)"
    by (rule append_take_drop_id [symmetric])
  then have "drop p buf = e @ 0 # drop (Suc (p + length e)) buf"
    by (simp only: t d)
  moreover have "\<forall>x\<in>set e. x \<noteq> 0" using assms(4) by auto
  ultimately show ?thesis
    by (simp add: c_string_def takeWhile_append2)
qed

lemma offset_of_shift: "offset_of off strs k = off + offset_of 0 strs k"
proof (induction strs arbitrary: off k)
  case Nil
  then show ?case by simp
next
  case (Cons a rest)
  show ?case
  proof (cases k)
    case 0
    then show ?thesis by simp
  next
    case (Suc k')
    show ?thesis
      using Cons.IH [of "off + length (encode a) + 1" k'] Cons.IH [of "length (encode a) + 1" k']
      by (simp add: Suc)
  qed
qed

lemma getUint_of_bytes:
  assumes "p + n \<le> length buf" "\<And>j. j < n \<Longrightarrow> buf ! (p + j) = le_bytes n v ! j"
  shows "getUint n (int p) buf = Inr (v mod 256 ^ n)"
proof -
  have "take n (drop p buf) = le_bytes n v"
    using assms by (intro nth_equalityI) auto
  then show ?thesis
    using assms(1) by (simp add: getUint_def in_view_def le_value_le_bytes)
qed

lemma sizes_get_ok:
  assumes "in_view p1 4 buf" "in_view p2 4 buf" "p1 + 4 \<le> p2 \<or> p2 + 4 \<le> p1"
  shows "\<exists>b. sizes_get strs p1 p2 buf = (Inr 0, b) \<and> length b = length buf
          \<and> getUint32 p1 b = Inr (int (length strs) mod 2 ^ 32)
          \<and> getUint32 p2 b = Inr (bufSize_of strs mod 2 ^ 32)"
proof -
  let ?b1 = "store (nat p1) (le_bytes 4 (int (length strs))) buf"
  let ?b2 = "store (nat p2) (le_bytes 4 (bufSize_of strs)) ?b1"
  have v: "nat p1 + 4 \<le> length buf" "nat p2 + 4 \<le> length buf" "0 \<le> p1" "0 \<le> p2"
    using assms by (simp_all add: in_view_def)
  have 1: "setUint32 p1 (int (length strs)) buf = Inr ?b1"
    using assms by (simp add: setUint_ok)
  have 2: "setUint32 p2 (bufSize_of strs) ?b1 = Inr ?b2"
    using assms v by (simp add: setUint_ok)
  have r2: "getUint32 p2 ?b2 = Inr (bufSize_of strs mod 2 ^ 32)"
    using getUint_setUint_same [of p2 4 ?b1 "bufSize_of strs"] assms v by simp
  have "take 4 (drop (nat p1) ?b2) = take 4 (drop (nat p1) ?b1)"
    using v assms(3) by (intro read_store_other) auto
  also have "\<dots> = le_bytes 4 (int (length strs))"
    using read_store_same [of "nat p1" "le_bytes 4 (int (length strs))" buf] v by simp
  finally have r1: "getUint32 p1 ?b2 = Inr (int (length strs) mod 2 ^ 32)"
    using v by (simp add: getUint_def in_view_def le_value_le_bytes)
  show ?thesis
    using 1 2 r1 r2 v by (intro exI [of _ ?b2]) (simp add: sizes_get_def)
qed

lemma strings_get_ok:
  assumes fit: "0 \<le> ptr" "ptr + 4 * int (length strs) \<le> int (length buf)"
      "0 \<le> bptr" "bptr + int (packed_size strs) \<le> int (length buf)"
    and apart: "ptr + 4 * int (length strs) \<le> bptr \<or> bptr + int (packed_size strs) \<le> ptr"
    and wasm32: "length buf \<le> 2 ^ 32"
  shows "\<exists>b. strings_get_loop strs 0 ptr bptr buf = (Inr 0, b) \<and> length b = length buf
      \<and> (\<forall>k<length strs.
            getUint32 (ptr + 4 * int k) b = Inr (bptr + int (offset_of 0 strs k))
          \<and> (0 \<notin> set (strs ! k) \<longrightarrow>
               c_string b (nat bptr + offset_of 0 strs k) = encode (strs ! k)))"
proof -
  define P where "P = nat ptr"
  define B where "B = nat bptr"
  have pb: "ptr = int P" "bptr = int B" using fit by (simp_all add: P_def B_def)
  have pre: "P + 4 * (0 + length strs) \<le> length buf" "B + packed_size strs \<le> length buf"
    "P + 4 * (0 + length strs) \<le> B \<or> B + packed_size strs \<le> P + 4 * 0"
    using fit apart unfolding pb by auto
  from strings_get_loop_layout [OF pre] obtain b where
    r: "strings_get_loop strs (int 0) (int P) (int B) buf = (Inr 0, b)"
    and l: "length b = length buf"
    and lay: "\<And>k. k < length strs \<Longrightarrow>
           (\<forall>j<4. b ! (P + 4 * (0 + k) + j) = le_bytes 4 (int (offset_of B strs k)) ! j)
         \<and> (\<forall>j<length (encode (strs ! k)).
               b ! (offset_of B strs k + j) = encode (strs ! k) ! j)
         \<and> b ! (offset_of B strs k + length (encode (strs ! k))) = 0"
    by blast
  have each: "getUint32 (ptr + 4 * int k) b = Inr (bptr + int (offset_of 0 strs k))
          \<and> (0 \<notin> set (strs ! k) \<longrightarrow>
               c_string b (nat bptr + offset_of 0 strs k) = encode (strs ! k))"
    if k: "k < length strs" for k
  proof -
    note ob = offset_of_bounds [OF k, of B]
    have lt: "offset_of B strs k < 2 ^ 32"
      using ob pre(2) wasm32 by linarith
    have slot: "P + 4 * k + 4 \<le> length b" using pre(1) k l by simp
    have "getUint 4 (int (P + 4 * k)) b = Inr (int (offset_of B strs k) mod 256 ^ 4)"
      using lay [OF k] slot by (intro getUint_of_bytes) auto
    moreover have "int (offset_of B strs k) mod 256 ^ 4 = int (offset_of B strs k)"
      using lt by simp
    ultimately have g: "getUint32 (ptr + 4 * int k) b = Inr (bptr + int (offset_of 0 strs k))"
      unfolding pb by (simp add: offset_of_shift [of B])
    have c: "c_string b (nat bptr + offset_of 0 strs k) = encode (strs ! k)"
      if "0 \<notin> set (strs ! k)"
    proof -
      have "c_string b (offset_of B strs k) = encode (strs ! k)"
        using lay [OF k] ob pre(2) l encode_nonzero [OF that]
        by (intro c_string_at) auto
      then show ?thesis
        using offset_of_shift [of B strs k] by (simp add: B_def)
    qed
    from g c show ?thesis by blast
  qed
  from r l each show ?thesis
    unfolding pb by (intro exI [of _ b]) simp
qed

lemma utf8_decode_encoded:
  "(\<And>cp. cp \<in> set cps \<Longrightarrow> scalar cp) \<Longrightarrow>
     utf8_decode 0 0 0x80 0xBF (concat (map utf8_of cps)) = cps"
proof (induction cps)
  case Nil
  then show ?case by simp
next
  case (Cons cp cps)
  have "scalar cp" using Cons.prems by simp
  from dec_utf8_of [OF this, of "concat (map utf8_of cps)"] Cons show ?case by simp
qed

lemma of_nat_unat16: "(of_nat (unat (u :: 16 word)) :: 16 word) = u"
  by simp

lemma utf16_of_unit:
  "\<not> is_high u \<Longrightarrow> \<not> is_low u \<Longrightarrow> utf16_of (lone u) = [u]"
  using unat16_lt [of u] by (simp add: lone_def utf16_of_def)

lemma utf16_of_pair:
  assumes "is_high u" "is_low l"
  shows "utf16_of (0x10000 + (unat u - 0xD800) * 0x400 + (unat l - 0xDC00)) = [u, l]"
proof -
  define x where "x = unat u - 0xD800"
  define y where "y = unat l - 0xDC00"
  have xy: "y < 0x400" "0xD800 + x = unat u" "0xDC00 + y = unat l"
    using assms by (auto simp: is_high_def is_low_def x_def y_def)
  have dm: "(x * 0x400 + y) div 0x400 = x" "(x * 0x400 + y) mod 0x400 = y"
    using xy(1) by simp_all
  have "utf16_of (0x10000 + x * 0x400 + y) =
      [of_nat (0xD800 + (x * 0x400 + y) div 0x400), of_nat (0xDC00 + (x * 0x400 + y) mod 0x400)]"
    by (simp add: utf16_of_def add.assoc del: of_nat_add)
  also have "\<dots> = [of_nat (unat u), of_nat (unat l)]"
    by (simp only: dm xy)
  finally show ?thesis by (simp add: x_def y_def)
qed

lemma utf16_of_scalar_values:
  "well_formed t \<Longrightarrow> concat (map utf16_of (scalar_values t)) = t"
proof (induction t rule: scalar_values.induct)
  case 1
  then show ?case by simp
next
  case (2 u)
  then show ?case by (simp add: utf16_of_unit)
next
  case (3 u l rest)
  show ?case
  proof (cases "is_high u \<and> is_low l")
    case True
    with 3 show ?thesis by (simp add: utf16_of_pair)
  next
    case False
    with 3 show ?thesis by (simp add: utf16_of_unit)
  qed
qed

lemma scalar_values_no_bom:
  assumes "t = [] \<or> hd t \<noteq> 0xFEFF"
  shows "strip_bom (scalar_values t) = scalar_values t"
proof (cases t rule: scalar_values.cases)
  case 1
  then show ?thesis by (simp add: strip_bom_def)
next
  case (2 u)
  with assms have "unat u \<noteq> 0xFEFF" by (metis list.sel(1) not_Cons_self2 of_nat_numeral of_nat_unat16)
  with 2 show ?thesis by (simp add: strip_bom_def lone_def)
next
  case (3 u l rest)
  with assms have "unat u \<noteq> 0xFEFF" by (metis list.sel(1) list.distinct(1) of_nat_numeral of_nat_unat16)
  with 3 show ?thesis by (simp add: strip_bom_def lone_def)
qed

lemma decode_encode:
  assumes "well_formed t" "t = [] \<or> hd t \<noteq> 0xFEFF"
  shows "decode (encode t) = t"
proof -
  have "utf8_decode 0 0 0x80 0xBF (encode t) = scalar_values t"
    unfolding encode_def by (rule utf8_decode_encoded) (rule scalar_values_scalar)
  then show ?thesis
    using assms by (simp add: decode_def scalar_values_no_bom utf16_of_scalar_values)
qed

lemma scalar_values_append:
  "well_formed a \<Longrightarrow> scalar_values (a @ b) = scalar_values a @ scalar_values b"
proof (induction a rule: scalar_values.induct)
  case 1
  then show ?case by simp
next
  case (2 u)
  then show ?case by (cases b) (simp_all add: lone_def)
next
  case (3 u l rest)
  then show ?case by (simp split: if_splits)
qed

lemma encode_append: "well_formed a \<Longrightarrow> encode (a @ b) = encode a @ encode b"
  by (simp add: encode_def scalar_values_append)

lemma well_formed_append: "well_formed a \<Longrightarrow> well_formed b \<Longrightarrow> well_formed (a @ b)"
proof (induction a rule: scalar_values.induct)
  case 1
  then show ?case by simp
next
  case (2 u)
  then show ?case by (cases b) simp_all
next
  case (3 u l rest)
  then show ?case by (simp split: if_splits)
qed

lemma in_view_8: "in_view p 8 buf \<longleftrightarrow> in_view p 4 buf \<and> in_view (p + 4) 4 buf"
  by (auto simp: in_view_def)

lemma fd_write_loop_ok:
  assumes "\<And>j. j < n \<Longrightarrow> in_view (iovs_ptr + int (i + j) * 8) 8 buf"
  shows "fd_write_loop n (int i) iovs_ptr buf acc written =
           Inr (acc @ concat (map (\<lambda>j. iov_text buf (iovec_at buf iovs_ptr j)) [i..<i + n]),
                written + (\<Sum>j\<leftarrow>[i..<i + n]. snd (iovec_at buf iovs_ptr j)))"
  using assms
proof (induction n arbitrary: i acc written)
  case 0
  then show ?case by simp
next
  case (Suc n)
  have v: "in_view (iovs_ptr + int i * 8) 4 buf" "in_view (iovs_ptr + int i * 8 + 4) 4 buf"
    using Suc.prems [of 0] by (simp_all add: in_view_8)
  have rest: "\<And>j. j < n \<Longrightarrow> in_view (iovs_ptr + int (Suc i + j) * 8) 8 buf"
    using Suc.prems [of "Suc j" for j] by simp
  have up: "[i..<i + Suc n] = i # [Suc i..<Suc i + n]"
    by (simp add: upt_conv_Cons)
  have i1: "int i + 1 = int (Suc i)" by simp
  show ?case
    using v Suc.IH [OF rest]
    by (simp only: fd_write_loop.simps getUint_def if_True sum.case i1 up iovec_at_def [symmetric])
       (simp add: iov_text_def iovec_at_def)
qed

lemma fd_write_loop_fails:
  assumes "j < n" "\<not> in_view (iovs_ptr + int (i + j) * 8) 8 buf"
  shows "fd_write_loop n (int i) iovs_ptr buf acc written = Inl out_of_bounds"
  using assms
proof (induction n arbitrary: i j acc written)
  case 0
  then show ?case by simp
next
  case (Suc n)
  show ?case
  proof (cases "in_view (iovs_ptr + int i * 8) 8 buf")
    case False
    then show ?thesis
      by (auto simp: in_view_8 getUint_def)
  next
    case True
    with Suc.prems obtain j' where j': "j = Suc j'" by (cases j) auto
    with Suc.prems have "j' < n" "\<not> in_view (iovs_ptr + int (Suc i + j') * 8) 8 buf" by simp_all
    from Suc.IH [OF this] True show ?thesis
      by (simp add: in_view_8 getUint_def add.commute)
  qed
qed

lemma fd_write_result:
  assumes "memory s = Some buf"
  shows "fd_write fd iovs_ptr iovs_len nwritten_ptr s =
    (if \<exists>j<nat iovs_len. \<not> in_view (iovs_ptr + int j * 8) 8 buf then (Inl out_of_bounds, s)
     else
       let ivs = iovecs buf iovs_ptr (nat iovs_len);
           s1 = (if fd = 1 then s\<lparr>stdout := stdout s @ [concat (map (iov_text buf) ivs)]\<rparr>
                 else if fd = 2 then s\<lparr>stderr := stderr s @ [concat (map (iov_text buf) ivs)]\<rparr>
                 else s)
       in if in_view nwritten_ptr 4 buf
          then (Inr 0, s1\<lparr>memory :=
                  Some (store (nat nwritten_ptr) (le_bytes 4 (sum_list (map snd ivs))) buf)\<rparr>)
          else (Inl out_of_bounds, s1))"
proof (cases "\<exists>j<nat iovs_len. \<not> in_view (iovs_ptr + int j * 8) 8 buf")
  case True
  then obtain j where "j < nat iovs_len" "\<not> in_view (iovs_ptr + int (0 + j) * 8) 8 buf" by auto
  from fd_write_loop_fails [OF this, of "[]" 0] True assms show ?thesis
    by (simp add: fd_write_def)
next
  case False
  then have "\<And>j. j < nat iovs_len \<Longrightarrow> in_view (iovs_ptr + int (0 + j) * 8) 8 buf" by auto
  from fd_write_loop_ok [OF this, of "nat iovs_len" "[]" 0]
  have "fd_write_loop (nat iovs_len) 0 iovs_ptr buf [] 0 =
      Inr (concat (map (iov_text buf) (iovecs buf iovs_ptr (nat iovs_len))),
           sum_list (map snd (iovecs buf iovs_ptr (nat iovs_len))))"
    by (simp add: iovecs_def comp_def)
  with False assms show ?thesis
    by (auto simp: fd_write_def Let_def setUint_def)
qed

lemma on_buffer_fst:
  "memory s = Some buf \<Longrightarrow> fst (on_buffer body s) = fst (body buf)"
  by (simp add: on_buffer_def split: prod.splits)

lemma on_buffer_null: "memory s = None \<Longrightarrow> on_buffer body s = (Inl null_memory, s)"
  by (simp add: on_buffer_def)

lemma sizes_get_status:
  "fst (sizes_get strs p1 p2 buf) =
     (if in_view p1 4 buf \<and> in_view p2 4 buf then Inr 0 else Inl out_of_bounds)"
  by (auto simp: sizes_get_def setUint_def in_view_def)

lemma clock_status:
  assumes "memory s = Some buf"
  shows "fst (clock_time_get date_now performance_ns clock_id precision time_ptr s) =
     (if in_view time_ptr 8 buf then Inr 0 else Inl out_of_bounds)"
  using assms by (simp add: clock_time_get_def on_buffer_fst setUint_def Let_def)

lemma fdstat_status:
  assumes "memory s = Some buf"
  shows "fst (fd_fdstat_get fd stat_ptr s) =
     (if in_view stat_ptr 24 buf then Inr 0 else Inl out_of_bounds)"
proof -
  have l: "length (store (nat p) (le_bytes n v) b) = length b" if "in_view p n b" for p n v b
    using that by (simp add: in_view_def)
  have iv: "in_view stat_ptr 24 buf \<longleftrightarrow>
      in_view stat_ptr 1 buf \<and> in_view (stat_ptr + 2) 2 buf \<and> in_view (stat_ptr + 8) 8 buf
      \<and> in_view (stat_ptr + 16) 8 buf"
    by (auto simp: in_view_def)
  have v: "in_view p n (store (nat q) (le_bytes m v) b) = in_view p n b" if "in_view q m b"
    for p n q m v b
    using that by (simp add: in_view_def)
  show ?thesis
    using assms
    by (simp add: fd_fdstat_get_def on_buffer_fst iv)
       (auto simp: setUint_def v)
qed

lemma random_get_result:
  assumes "memory s = Some buf"
  shows "random_get entropy buf_ptr buf_len s =
     (if length (slice buf_ptr (buf_ptr + buf_len) buf) > 65536 then Inl QuotaExceededError
      else Inr 0, s)"
  using assms by (simp add: random_get_def getRandomValues_def)

lemma slice_in_bounds:
  assumes "0 \<le> p" "0 \<le> l" "p + l \<le> int (length buf)"
  shows "slice p (p + l) buf = take (nat l) (drop (nat p) buf)"
proof -
  have "nat (p + l) - nat p = nat l" using assms by simp
  then show ?thesis
    using assms by (simp add: slice_def clamp_index_def Let_def min_def)
qed


lemma in_view_length: "length b = length buf \<Longrightarrow> in_view p n b = in_view p n buf"
  by (simp add: in_view_def)

lemma strings_get_loop_status:
  "fst (strings_get_loop strs i ptr off buf) = Inr 0 \<and> length (snd (strings_get_loop strs i ptr off buf)) = length buf
     \<or> fst (strings_get_loop strs i ptr off buf) = Inl out_of_bounds
     \<or> fst (strings_get_loop strs i ptr off buf) = Inl (RangeError ''offset is out of bounds'')"
  "fst (strings_get_loop strs i ptr off buf) = Inr 0
     \<longleftrightarrow> strings_fit (length buf) strs (ptr + i * 4) off"
proof (induction strs arbitrary: i off buf)
  case Nil
  { case 1 show ?case by simp }
  { case 2 show ?case by simp }
next
  case (Cons a rest)
  have iv: "\<And>p n b. in_view p n b = fits (length b) p n"
    by (auto simp: in_view_def fits_def)
  { case 1
    let ?slot = "ptr + i * 4"
    let ?len = "length (encode a)"
    show ?case
    proof (cases "fits (length buf) ?slot 4 \<and> fits (length buf) off ?len")
      case False
      have "fst (strings_get_loop (a # rest) i ptr off buf) = Inl out_of_bounds
          \<or> fst (strings_get_loop (a # rest) i ptr off buf)
              = Inl (RangeError ''offset is out of bounds'')"
      proof (cases "fits (length buf) ?slot 4")
        case False
        then show ?thesis by (simp add: setUint_def iv)
      next
        case True
        have a: "setUint32 ?slot off buf = Inr (store (nat ?slot) (le_bytes 4 off) buf)"
          using True by (simp add: setUint_def iv)
        have l1: "length (store (nat ?slot) (le_bytes 4 off) buf) = length buf"
          using True by (intro length_store) (auto simp: fits_def length_le_bytes)
        have "\<not> fits (length buf) off ?len" using False True by simp
        hence b: "u8_set (encode a) off (store (nat ?slot) (le_bytes 4 off) buf)
                 = Inl (RangeError ''offset is out of bounds'')"
          by (auto simp: u8_set_def l1 fits_def)
        show ?thesis by (simp add: a b Let_def)
      qed
      with False show ?thesis by auto
    next
      case True
      define b3 where "b3 = u8_assign (off + int ?len) 0
          (store (nat off) (encode a) (store (nat ?slot) (le_bytes 4 off) buf))"
      have l3: "length b3 = length buf"
        using True by (auto simp: b3_def u8_assign_def fits_def length_store length_le_bytes)
      have step: "strings_get_loop (a # rest) i ptr off buf =
          strings_get_loop rest (i + 1) ptr (off + int ?len + 1) b3"
      proof -
        have a: "setUint32 ?slot off buf = Inr (store (nat ?slot) (le_bytes 4 off) buf)"
          using True by (simp add: setUint_def iv)
        have l1: "length (store (nat ?slot) (le_bytes 4 off) buf) = length buf"
          using True by (intro length_store) (auto simp: fits_def length_le_bytes)
        have b: "u8_set (encode a) off (store (nat ?slot) (le_bytes 4 off) buf)
                 = Inr (store (nat off) (encode a) (store (nat ?slot) (le_bytes 4 off) buf))"
          using True by (simp add: u8_set_def l1 fits_def)
        show ?thesis by (simp add: a b Let_def b3_def)
      qed
      from Cons.IH(1) [of "i + 1" "off + int ?len + 1" b3] show ?thesis
        by (simp only: step l3)
    qed }
  { case 2
    let ?slot = "ptr + i * 4"
    let ?len = "length (encode a)"
    show ?case
    proof (cases "fits (length buf) ?slot 4 \<and> fits (length buf) off ?len")
      case False
      have "fst (strings_get_loop (a # rest) i ptr off buf) = Inl out_of_bounds
          \<or> fst (strings_get_loop (a # rest) i ptr off buf)
              = Inl (RangeError ''offset is out of bounds'')"
      proof (cases "fits (length buf) ?slot 4")
        case False
        then show ?thesis by (simp add: setUint_def iv)
      next
        case True
        have a: "setUint32 ?slot off buf = Inr (store (nat ?slot) (le_bytes 4 off) buf)"
          using True by (simp add: setUint_def iv)
        have l1: "length (store (nat ?slot) (le_bytes 4 off) buf) = length buf"
          using True by (intro length_store) (auto simp: fits_def length_le_bytes)
        have "\<not> fits (length buf) off ?len" using False True by simp
        hence b: "u8_set (encode a) off (store (nat ?slot) (le_bytes 4 off) buf)
                 = Inl (RangeError ''offset is out of bounds'')"
          by (auto simp: u8_set_def l1 fits_def)
        show ?thesis by (simp add: a b Let_def)
      qed
      with False show ?thesis by auto
    next
      case True
      define b3 where "b3 = u8_assign (off + int ?len) 0
          (store (nat off) (encode a) (store (nat ?slot) (le_bytes 4 off) buf))"
      have l3: "length b3 = length buf"
        using True by (auto simp: b3_def u8_assign_def fits_def length_store length_le_bytes)
      have step: "strings_get_loop (a # rest) i ptr off buf =
          strings_get_loop rest (i + 1) ptr (off + int ?len + 1) b3"
      proof -
        have a: "setUint32 ?slot off buf = Inr (store (nat ?slot) (le_bytes 4 off) buf)"
          using True by (simp add: setUint_def iv)
        have l1: "length (store (nat ?slot) (le_bytes 4 off) buf) = length buf"
          using True by (intro length_store) (auto simp: fits_def length_le_bytes)
        have b: "u8_set (encode a) off (store (nat ?slot) (le_bytes 4 off) buf)
                 = Inr (store (nat off) (encode a) (store (nat ?slot) (le_bytes 4 off) buf))"
          using True by (simp add: u8_set_def l1 fits_def)
        show ?thesis by (simp add: a b Let_def b3_def)
      qed
      have s: "ptr + (i + 1) * 4 = ?slot + 4" by (simp add: algebra_simps)
      from Cons.IH(2) [of "i + 1" "off + int ?len + 1" b3] True show ?thesis
        by (simp only: step l3 s strings_fit.simps) simp
    qed }
qed

lemma null_memory_handlers:
  assumes "memory s = None"
  shows "args_sizes_get a b s = (Inl null_memory, s)"
    and "args_get a b s = (Inl null_memory, s)"
    and "environ_sizes_get a b s = (Inl null_memory, s)"
    and "environ_get a b s = (Inl null_memory, s)"
    and "clock_time_get dn pn cid pr tp s = (Inl null_memory, s)"
    and "fd_write fd ip il np s = (Inl null_memory, s)"
    and "fd_fdstat_get fd sp s = (Inl null_memory, s)"
    and "random_get entropy bp bl s = (Inl null_memory, s)"
  using assms
  by (simp_all add: args_sizes_get_def args_get_def environ_sizes_get_def environ_get_def
        clock_time_get_def fd_write_def fd_fdstat_get_def random_get_def on_buffer_null)

lemma strings_get_status:
  assumes "memory s = Some buf"
  shows "fst (args_get argv_ptr argv_buf_ptr s) = Inr 0
           \<longleftrightarrow> strings_fit (length buf) (args s) argv_ptr argv_buf_ptr"
    and "fst (environ_get environ_ptr environ_buf_ptr s) = Inr 0
           \<longleftrightarrow> strings_fit (length buf) (envArray s) environ_ptr environ_buf_ptr"
  using assms strings_get_loop_status(2) [of _ 0 _ _ buf]
  by (simp_all add: args_get_def environ_get_def on_buffer_fst)


lemma fd_write_status:
  assumes "memory s = Some buf"
  shows "fst (fd_write fd iovs_ptr iovs_len nwritten_ptr s) =
     (if (\<forall>j<nat iovs_len. in_view (iovs_ptr + int j * 8) 8 buf) \<and> in_view nwritten_ptr 4 buf
      then Inr 0 else Inl out_of_bounds)"
  by (simp add: fd_write_result [OF assms] Let_def)

lemma length_slice_in_view:
  assumes "0 \<le> l" "in_view p (nat l) buf"
  shows "length (slice p (p + l) buf) = nat l"
proof -
  from assms have "0 \<le> p" "p + l \<le> int (length buf)" by (auto simp: in_view_def)
  with assms(1) show ?thesis
    by (simp add: slice_in_bounds)
qed

lemma random_get_status:
  assumes "memory s = Some buf" "0 \<le> buf_len" "in_view buf_ptr (nat buf_len) buf"
  shows "fst (random_get entropy buf_ptr buf_len s) =
     (if buf_len > 65536 then Inl QuotaExceededError else Inr 0)"
  using assms by (auto simp: random_get_result length_slice_in_view)






section \<open>Facts about random_get\<close>

lemma random_get_keeps: "snd (random_get entropy buf_ptr buf_len s) = s"
  by (simp add: random_get_def split: option.splits sum.splits)

lemma slice_2_6: "slice 2 (2 + 4) [0, 0, 0, 0, 0, 0, 0, 0] = [0, 0, 0, 0::8 word]"
  by (simp add: slice_def clamp_index_def)

lemma fixed_entropy_4:
  "getRandomValues fixed_entropy [0, 0, 0, 0] = Inr [0xAA, 0xAA, 0xAA, 0xAA]"
  by (simp add: getRandomValues_def fixed_entropy_def)

text \<open>
  C5 says that after a successful \<open>random_get(buf_ptr, buf_len)\<close> the bytes of the span in
  guest memory have been filled with random bytes. The code does not do that:
  \<open>random_get\<close> hands \<open>crypto.getRandomValues\<close> the copy made by \<open>mem.slice\<close>, so it is
  the copy that is filled, and the session, guest memory included, is after every call
  (whatever the entropy source, the span and the outcome) what it was before. On eight
  zero bytes of memory, with an entropy source that delivers \<open>0xAA\<close> only, the call for
  the span from 2 to 6 returns 0 and the memory is still eight zero bytes, while the
  copy of the four bytes was filled with \<open>0xAA\<close>.
\<close>

theorem random_get_leaves_memory:
  "snd (random_get entropy buf_ptr buf_len s) = s
   \<and> random_get fixed_entropy 2 4 (mem_session [0, 0, 0, 0, 0, 0, 0, 0])
       = (Inr 0, mem_session [0, 0, 0, 0, 0, 0, 0, 0])
   \<and> slice 2 (2 + 4) [0, 0, 0, 0, 0, 0, 0, 0] = [0, 0, 0, 0]
   \<and> getRandomValues fixed_entropy [0, 0, 0, 0] = Inr [0xAA, 0xAA, 0xAA, 0xAA]"
proof -
  have m: "memory (mem_session [0, 0, 0, 0, 0, 0, 0, 0]) = Some [0, 0, 0, 0, 0, 0, 0, 0]"
    by (simp add: mem_session_def)
  have "random_get fixed_entropy 2 4 (mem_session [0, 0, 0, 0, 0, 0, 0, 0])
       = (Inr 0, mem_session [0, 0, 0, 0, 0, 0, 0, 0])"
    by (simp only: random_get_def m option.case slice_2_6 fixed_entropy_4 sum.case)
  with random_get_keeps slice_2_6 fixed_entropy_4 show ?thesis by (intro conjI)
qed

section \<open>Facts about accesses outside the memory\<close>









section \<open>Facts about the argument vector\<close>

lemma utf8_string_encode: "well_formed t \<Longrightarrow> utf8_string (encode t) = t"
proof -
  assume wf: "well_formed t"
  have "utf8_decode 0 0 0x80 0xBF (encode t) = scalar_values t"
    unfolding encode_def by (rule utf8_decode_encoded) (rule scalar_values_scalar)
  with wf show ?thesis by (simp add: utf8_string_def utf16_of_scalar_values)
qed

lemma encode_ascii_simps:
  "encode (js ''ab'') = [0x61, 0x62]" "encode (js ''c'') = [0x63]"
  "encode [0x61, 0, 0x62] = [0x61, 0, 0x62]"
  by (simp_all add: js_def encode_def is_high_def is_low_def lone_def utf8_of_def)

lemma encode_lone: "encode [0xD800] = [0xEF, 0xBF, 0xBD]"
  by (simp add: encode_def is_high_def is_low_def lone_def utf8_of_def)

text \<open>
  C8, as stated, fails in two ways. With the one argument \<open>a\<close>, NUL, \<open>b\<close>, \<open>args_get\<close>
  succeeds and stores all three bytes, but the NUL-terminated string at the pointer it
  wrote is \<open>a\<close> alone. With the one argument that is a lone high surrogate, what is
  stored and read back is the encoding of U+FFFD, which is another string.
\<close>

theorem args_not_reproduced_counterexample:
  "args_get 0 4 nul_session =
     (Inr 0, nul_session\<lparr>memory := Some [4, 0, 0, 0, 0x61, 0, 0x62, 0]\<rparr>)
   \<and> getUint32 0 [4, 0, 0, 0, 0x61, 0, 0x62, 0] = Inr 4
   \<and> c_string [4, 0, 0, 0, 0x61, 0, 0x62, 0] 4 = [0x61]
   \<and> utf8_string [0x61] = [0x61]
   \<and> args nul_session = [[0x61, 0, 0x62]]
   \<and> args_get 0 4 lone_session =
     (Inr 0, lone_session\<lparr>memory := Some [4, 0, 0, 0, 0xEF, 0xBF, 0xBD, 0]\<rparr>)
   \<and> getUint32 0 [4, 0, 0, 0, 0xEF, 0xBF, 0xBD, 0] = Inr 4
   \<and> c_string [4, 0, 0, 0, 0xEF, 0xBF, 0xBD, 0] 4 = [0xEF, 0xBF, 0xBD]
   \<and> utf8_string [0xEF, 0xBF, 0xBD] = [0xFFFD]
   \<and> args lone_session = [[0xD800]]"
proof -
  have a: "args_get 0 4 nul_session =
     (Inr 0, nul_session\<lparr>memory := Some [4, 0, 0, 0, 0x61, 0, 0x62, 0]\<rparr>)"
    by (simp add: args_get_def on_buffer_def nul_session_def encode_ascii_simps setUint_def
        in_view_def store_def le_bytes_def u8_set_def u8_assign_def upt_conv_Cons Let_def)
  have b: "getUint32 0 [4, 0, 0, 0, 0x61, 0, 0x62, 0] = Inr 4"
    by (simp add: getUint_def in_view_def le_value_def)
  have c: "c_string [4, 0, 0, 0, 0x61, 0, 0x62, 0] 4 = [0x61]"
    by (simp add: c_string_def)
  have d: "utf8_string [0x61] = [0x61]"
    by (simp add: utf8_string_def utf16_of_def)
  have e: "args nul_session = [[0x61, 0, 0x62]]"
    by (simp add: nul_session_def)
  have f: "args_get 0 4 lone_session =
     (Inr 0, lone_session\<lparr>memory := Some [4, 0, 0, 0, 0xEF, 0xBF, 0xBD, 0]\<rparr>)"
    by (simp add: args_get_def on_buffer_def lone_session_def encode_lone setUint_def
        in_view_def store_def le_bytes_def u8_set_def u8_assign_def upt_conv_Cons Let_def)
  have g: "getUint32 0 [4, 0, 0, 0, 0xEF, 0xBF, 0xBD, 0] = Inr 4"
    by (simp add: getUint_def in_view_def le_value_def)
  have h: "c_string [4, 0, 0, 0, 0xEF, 0xBF, 0xBD, 0] 4 = [0xEF, 0xBF, 0xBD]"
    by (simp add: c_string_def)
  have i: "utf8_string [0xEF, 0xBF, 0xBD] = [0xFFFD]"
    by (simp add: utf8_string_def utf16_of_def)
  have j: "args lone_session = [[0xD800]]"
    by (simp add: lone_session_def)
  show ?thesis
    by (intro conjI) (rule a, rule b, rule c, rule d, rule e, rule f, rule g, rule h, rule i, rule j)
qed

text \<open>
  C8, amended. Let every argument be a well-formed string (no lone surrogate) with no NUL
  character in it. Let the two output pointers of \<open>args_sizes_get\<close> lie in memory, apart
  from each other; and let \<open>args_get\<close>, called later on the same argument vector and
  whatever the memory then holds, be given a pointer array and a buffer that lie in that
  memory (of at most 4 GiB), apart from each other, with room for one pointer per argument
  and for every encoded argument with its terminator. Then \<open>args_sizes_get\<close> writes the
  number of arguments and the sum over the arguments of the encoded byte length plus one,
  and \<open>args_get\<close> writes one pointer per argument, the \<open>k\<close>-th pointing into the buffer
  where the \<open>k\<close>-th argument is packed (right after the earlier ones and their
  terminators); the NUL-terminated byte string read at each pointer is the UTF-8 encoding
  of that argument, and read as UTF-8 it is that argument: reading back reproduces the
  vector in order.
\<close>

theorem args_round_trip:
  assumes "memory s = Some buf"
    and "in_view argc_ptr 4 buf" "in_view argv_buf_size_ptr 4 buf"
    and "argc_ptr + 4 \<le> argv_buf_size_ptr \<or> argv_buf_size_ptr + 4 \<le> argc_ptr"
    and "memory s' = Some buf'" "args s' = args s" "length buf' \<le> 2 ^ 32"
    and "0 \<le> argv_ptr" "argv_ptr + 4 * int (length (args s)) \<le> int (length buf')"
    and "0 \<le> argv_buf_ptr" "argv_buf_ptr + int (packed_size (args s)) \<le> int (length buf')"
    and "argv_ptr + 4 * int (length (args s)) \<le> argv_buf_ptr
         \<or> argv_buf_ptr + int (packed_size (args s)) \<le> argv_ptr"
    and "\<forall>a\<in>set (args s). well_formed a \<and> 0 \<notin> set a"
  shows "(\<exists>b. args_sizes_get argc_ptr argv_buf_size_ptr s = (Inr 0, s\<lparr>memory := Some b\<rparr>)
            \<and> getUint32 argc_ptr b = Inr (int (length (args s)))
            \<and> getUint32 argv_buf_size_ptr b = Inr (\<Sum>a\<leftarrow>args s. int (length (encode a)) + 1))
       \<and> (\<exists>b. args_get argv_ptr argv_buf_ptr s' = (Inr 0, s'\<lparr>memory := Some b\<rparr>)
            \<and> (\<forall>k<length (args s).
                  getUint32 (argv_ptr + 4 * int k) b =
                    Inr (argv_buf_ptr + int (offset_of 0 (args s) k))
                \<and> c_string b (nat argv_buf_ptr + offset_of 0 (args s) k) = encode (args s ! k)
                \<and> utf8_string (c_string b (nat argv_buf_ptr + offset_of 0 (args s) k))
                    = args s ! k))"
proof -
  have n: "length (args s) < 2 ^ 32"
  proof -
    have "int (length buf') \<le> 4294967296" using assms(7) by simp
    with assms(8,9) have "int (length (args s)) < 4294967296" by linarith
    then show ?thesis by simp
  qed
  have p: "packed_size (args s) < 2 ^ 32"
  proof (cases "args s")
    case Nil
    then show ?thesis by simp
  next
    case (Cons a rest)
    then have "0 < int (length (args s))" by simp
    moreover have "int (length buf') \<le> 4294967296" using assms(7) by simp
    ultimately have "int (packed_size (args s)) < 4294967296"
      using assms(8-12) by linarith
    then show ?thesis by simp
  qed
  from sizes_get_ok [OF assms(2,3,4), of "args s"] obtain b1 where
    b1: "sizes_get (args s) argc_ptr argv_buf_size_ptr buf = (Inr 0, b1)"
      "getUint32 argc_ptr b1 = Inr (int (length (args s)) mod 2 ^ 32)"
      "getUint32 argv_buf_size_ptr b1 = Inr (bufSize_of (args s) mod 2 ^ 32)"
    by blast
  have m1: "int (length (args s)) mod 2 ^ 32 = int (length (args s))"
    using n by simp
  have m2: "bufSize_of (args s) mod 2 ^ 32 = (\<Sum>a\<leftarrow>args s. int (length (encode a)) + 1)"
    using p by (simp add: bufSize_of_packed) (simp add: bufSize_of_def [symmetric] bufSize_of_packed)
  have first: "\<exists>b. args_sizes_get argc_ptr argv_buf_size_ptr s = (Inr 0, s\<lparr>memory := Some b\<rparr>)
            \<and> getUint32 argc_ptr b = Inr (int (length (args s)))
            \<and> getUint32 argv_buf_size_ptr b = Inr (\<Sum>a\<leftarrow>args s. int (length (encode a)) + 1)"
    using b1 m1 m2 assms(1)
    by (intro exI [of _ b1]) (simp add: args_sizes_get_def on_buffer_def)
  from strings_get_ok [OF assms(8,9,10,11,12,7)] obtain b2 where
    b2: "strings_get_loop (args s) 0 argv_ptr argv_buf_ptr buf' = (Inr 0, b2)"
    and each: "\<And>k. k < length (args s) \<Longrightarrow>
            getUint32 (argv_ptr + 4 * int k) b2 = Inr (argv_buf_ptr + int (offset_of 0 (args s) k))
          \<and> (0 \<notin> set (args s ! k) \<longrightarrow>
               c_string b2 (nat argv_buf_ptr + offset_of 0 (args s) k) = encode (args s ! k))"
    by blast
  have all: "getUint32 (argv_ptr + 4 * int k) b2 =
                    Inr (argv_buf_ptr + int (offset_of 0 (args s) k))
                \<and> c_string b2 (nat argv_buf_ptr + offset_of 0 (args s) k) = encode (args s ! k)
                \<and> utf8_string (c_string b2 (nat argv_buf_ptr + offset_of 0 (args s) k))
                    = args s ! k" if k: "k < length (args s)" for k
  proof -
    from k assms(13) have ok: "well_formed (args s ! k)" "0 \<notin> set (args s ! k)"
      by (auto simp: all_set_conv_all_nth)
    from each [OF k] ok(2) have
      g: "getUint32 (argv_ptr + 4 * int k) b2 = Inr (argv_buf_ptr + int (offset_of 0 (args s) k))"
      and c: "c_string b2 (nat argv_buf_ptr + offset_of 0 (args s) k) = encode (args s ! k)"
      by simp_all
    from g c ok(1) show ?thesis by (simp add: utf8_string_encode)
  qed
  have second: "\<exists>b. args_get argv_ptr argv_buf_ptr s' = (Inr 0, s'\<lparr>memory := Some b\<rparr>)
            \<and> (\<forall>k<length (args s).
                  getUint32 (argv_ptr + 4 * int k) b =
                    Inr (argv_buf_ptr + int (offset_of 0 (args s) k))
                \<and> c_string b (nat argv_buf_ptr + offset_of 0 (args s) k) = encode (args s ! k)
                \<and> utf8_string (c_string b (nat argv_buf_ptr + offset_of 0 (args s) k))
                    = args s ! k)"
  proof (intro exI [of _ b2] conjI allI impI)
    show "args_get argv_ptr argv_buf_ptr s' = (Inr 0, s'\<lparr>memory := Some b2\<rparr>)"
      using b2 assms(5,6) by (simp add: args_get_def on_buffer_def)
  qed (use all in blast)+
  from first second show ?thesis by (rule conjI)
qed

text \<open>The amended C8 on the session with the arguments \<open>ab\<close> and \<open>c\<close>.\<close>

theorem args_round_trip_witness:
  "(\<exists>b. args_sizes_get 0 4 args_session = (Inr 0, args_session\<lparr>memory := Some b\<rparr>)
        \<and> getUint32 0 b = Inr 2 \<and> getUint32 4 b = Inr 5)
   \<and> (\<exists>b. args_get 0 8 args_session = (Inr 0, args_session\<lparr>memory := Some b\<rparr>)
        \<and> getUint32 0 b = Inr 8 \<and> c_string b 8 = [0x61, 0x62]
        \<and> utf8_string (c_string b 8) = js ''ab''
        \<and> getUint32 4 b = Inr 11 \<and> c_string b 11 = [0x63]
        \<and> utf8_string (c_string b 11) = js ''c'')"
proof -
  have ps: "packed_size (args args_session) = 5" "length (args args_session) = 2"
    by (simp_all add: args_session_def encode_ascii_simps)
  have fine: "\<forall>a\<in>set (args args_session). well_formed a \<and> 0 \<notin> set a"
    by (simp add: args_session_def js_def is_high_def is_low_def)
  have t: "(\<exists>b. args_sizes_get 0 4 args_session = (Inr 0, args_session\<lparr>memory := Some b\<rparr>)
            \<and> getUint32 0 b = Inr (int (length (args args_session)))
            \<and> getUint32 4 b = Inr (\<Sum>a\<leftarrow>args args_session. int (length (encode a)) + 1))
       \<and> (\<exists>b. args_get 0 8 args_session = (Inr 0, args_session\<lparr>memory := Some b\<rparr>)
            \<and> (\<forall>k<length (args args_session).
                  getUint32 (0 + 4 * int k) b =
                    Inr (8 + int (offset_of 0 (args args_session) k))
                \<and> c_string b (nat 8 + offset_of 0 (args args_session) k)
                    = encode (args args_session ! k)
                \<and> utf8_string (c_string b (nat 8 + offset_of 0 (args args_session) k))
                    = args args_session ! k))"
    by (rule args_round_trip [where buf = "replicate 16 0xFF" and buf' = "replicate 16 0xFF"])
       (simp_all add: ps fine in_view_def, simp_all add: args_session_def)
  then obtain b1 b2 where
    1: "args_sizes_get 0 4 args_session = (Inr 0, args_session\<lparr>memory := Some b1\<rparr>)"
       "getUint32 0 b1 = Inr (int (length (args args_session)))"
       "getUint32 4 b1 = Inr (\<Sum>a\<leftarrow>args args_session. int (length (encode a)) + 1)"
    and 2: "args_get 0 8 args_session = (Inr 0, args_session\<lparr>memory := Some b2\<rparr>)"
    and each: "\<And>k. k < length (args args_session) \<Longrightarrow>
                  getUint32 (0 + 4 * int k) b2 =
                    Inr (8 + int (offset_of 0 (args args_session) k))
                \<and> c_string b2 (nat 8 + offset_of 0 (args args_session) k)
                    = encode (args args_session ! k)
                \<and> utf8_string (c_string b2 (nat 8 + offset_of 0 (args args_session) k))
                    = args args_session ! k"
    by blast
  have first: "\<exists>b. args_sizes_get 0 4 args_session = (Inr 0, args_session\<lparr>memory := Some b\<rparr>)
        \<and> getUint32 0 b = Inr 2 \<and> getUint32 4 b = Inr 5"
    using 1 by (intro exI [of _ b1]) (simp add: args_session_def encode_ascii_simps)
  have u: "utf8_string [0x61, 0x62] = js ''ab''" "utf8_string [0x63] = js ''c''"
    by (simp_all add: utf8_string_def utf16_of_def js_def)
  have k0: "getUint32 0 b2 = Inr 8 \<and> c_string b2 8 = [0x61, 0x62]
      \<and> utf8_string (c_string b2 8) = js ''ab''"
    using each [of 0] by (simp add: args_session_def encode_ascii_simps u)
  have k1: "getUint32 4 b2 = Inr 11 \<and> c_string b2 11 = [0x63]
      \<and> utf8_string (c_string b2 11) = js ''c''"
    using each [of 1] by (simp add: args_session_def encode_ascii_simps u)
  have second: "\<exists>b. args_get 0 8 args_session = (Inr 0, args_session\<lparr>memory := Some b\<rparr>)
        \<and> getUint32 0 b = Inr 8 \<and> c_string b 8 = [0x61, 0x62]
        \<and> utf8_string (c_string b 8) = js ''ab''
        \<and> getUint32 4 b = Inr 11 \<and> c_string b 11 = [0x63]
        \<and> utf8_string (c_string b 11) = js ''c''"
    using 2 k0 k1 by (intro exI [of _ b2]) (simp add: u)
  from first second show ?thesis by (rule conjI)
qed

section \<open>Facts about proc_exit\<close>

text \<open>The decimal digits of a number read back give the number.\<close>

declare show_nat.simps [simp del]

lemma read_nat_snoc: "read_nat (ds @ [d]) = 10 * read_nat ds + (of_char d - 48)"
  by (simp add: read_nat_def)

lemma digit_char: "d < 10 \<Longrightarrow> (of_char (char_of (48 + d :: nat)) :: nat) = 48 + d"
  by simp

lemma read_show_nat: "read_nat (show_nat n) = n"
proof (induction n rule: show_nat.induct)
  case (1 n)
  show ?case
  proof (cases "n < 10")
    case True
    then show ?thesis
      by (subst show_nat.simps) (simp add: read_nat_def)
  next
    case False
    have "read_nat (show_nat n) = 10 * read_nat (show_nat (n div 10)) + (of_char (char_of (48 + n mod 10)) - 48)"
      using False by (subst show_nat.simps) (simp add: read_nat_snoc)
    also have "\<dots> = 10 * (n div 10) + n mod 10"
      using 1 False by simp
    finally show ?thesis by simp
  qed
qed

lemma show_nat_hd: "show_nat n \<noteq> [] \<and> hd (show_nat n) \<noteq> CHR ''-''"
proof (induction n rule: show_nat.induct)
  case (1 n)
  show ?case
  proof (cases "n < 10")
    case True
    have "char_of (48 + n) \<noteq> CHR ''-''"
    proof
      assume "char_of (48 + n) = CHR ''-''"
      hence "(of_char (char_of (48 + n)) :: nat) = of_char CHR ''-''" by simp
      thus False using True by simp
    qed
    with True show ?thesis by (subst (1 2) show_nat.simps) simp
  next
    case False
    with 1 show ?thesis by (subst (1 2) show_nat.simps) simp
  qed
qed

lemma read_show_int: "read_int (show_int i) = i"
proof (cases "i < 0")
  case True
  then show ?thesis by (simp add: read_int_def show_int_def read_show_nat)
next
  case False
  obtain c ds where cd: "show_nat (nat i) = c # ds" "c \<noteq> CHR ''-''"
    using show_nat_hd [of "nat i"] by (cases "show_nat (nat i)") auto
  have "read_nat (c # ds) = nat i" using read_show_nat [of "nat i"] cd by simp
  with False cd show ?thesis by (simp add: read_int_def show_int_def)
qed

lemma exit_code_of_message: "exit_code_of (''exit('' @ show_int code @ '')'') = code"
  by (simp add: exit_code_of_def read_show_int)

lemma show_int_3: "show_int 3 = ''3''"
  by (simp add: show_int_def show_nat.simps char_of_def bit_iff_odd drop_bit_eq_div)

lemma proc_exit_3: "proc_exit 3 s = (Inl (Error ''exit(3)''), s)"
  by (simp add: proc_exit_def show_int_3)

lemma exit_tick_simps:
  "exit_tick 3 (Suc k, s) = (Inr 0, (k, s))"
  "exit_tick 3 (0, s) = (Inl (Error ''exit(3)''), (0, s))"
  "fault_tick ''exit(3)'' (Suc k, s) = (Inr 0, (k, s))"
  "fault_tick ''exit(3)'' (0, s) = (Inl (Error ''exit(3)''), (0, s))"
  by (simp_all add: exit_tick_def fault_tick_def proc_exit_3 Ready_def)

lemma session_reactor_simps:
  "go_tick (exports (session_reactor t)) = t"
  "go_start_main (exports (session_reactor t)) w = (Inr 0, w)"
  "onTick (session_reactor t) = None"
  "mainStarted (session_reactor t) = False"
  "go_tick (exports ((session_reactor t)\<lparr>mainStarted := True\<rparr>)) = t"
  "onTick ((session_reactor t)\<lparr>mainStarted := True\<rparr>) = None"
  by (simp_all add: session_reactor_def)

text \<open>
  C9, as stated, fails. A guest that is ready once and calls \<open>proc_exit(3)\<close> in its second
  tick makes \<open>runAsync\<close> end with the outcome \<open>Error\<close> with message \<open>exit(3)\<close>: a plain
  \<open>Error\<close>, the very outcome of the run of a guest whose second tick fails with an
  \<open>Error\<close> of that message for another reason. Nothing tells the exit from a fault.
\<close>

theorem proc_exit_counterexample:
  "runAsync 2 (\<lambda>ms w. (None, w)) (session_reactor (exit_tick 3))
       (start_machine (1, createMinimalWASI None None)) =
     Some (Inl (Error ''exit(3)''), (session_reactor (exit_tick 3))\<lparr>mainStarted := True\<rparr>,
           \<lparr>world = (0, createMinimalWASI None None),
            trace = [EvStartMain, EvTick, EvYield, EvTick]\<rparr>)
   \<and> runAsync 2 (\<lambda>ms w. (None, w)) (session_reactor (fault_tick ''exit(3)''))
       (start_machine (1, createMinimalWASI None None)) =
     Some (Inl (Error ''exit(3)''),
           (session_reactor (fault_tick ''exit(3)''))\<lparr>mainStarted := True\<rparr>,
           \<lparr>world = (0, createMinimalWASI None None),
            trace = [EvStartMain, EvTick, EvYield, EvTick]\<rparr>)"
  by (simp add: runAsync_def startMain_def start_machine_def emit_def session_reactor_simps
        call_onTick_def loopOnce_def exit_tick_simps Idle_def Ready_def numeral_2_eq_2)

text \<open>
  C9, amended. Every invocation of \<open>proc_exit(code)\<close> throws (it never returns) a plain
  \<open>Error\<close> whose message is \<open>exit(\<close>, the code in decimal, and a closing bracket, so that
  the code can be read back from the message; the session is left as it was. When that
  exception leaves a tick (the per-iteration callback, if any, having returned normally),
  \<open>runAsync\<close> and \<open>runSync\<close> end at once, whatever fuel is left, with that \<open>Error\<close> as
  their outcome and the guest as the tick left it: no iteration, yield or wait follows the
  tick. When it leaves \<open>go_start_main\<close>, they end before the first tick. The outcome is
  the thrown \<open>Error\<close>, an error outcome; there is no separate exit signal.
\<close>

theorem proc_exit_ends_run:
  assumes cb: "call_onTick r m = (Inr (), ma)"
      and tick: "go_tick (exports r) (world ma) = (Inl e, w)"
      and thrown: "fst (proc_exit code s) = Inl e"
      and fresh: "\<not> mainStarted r'"
      and start: "go_start_main (exports r') (world m') = (Inl e, w')"
  shows "proc_exit code s = (Inl (Error (''exit('' @ show_int code @ '')'')), s)
     \<and> e = Error (''exit('' @ show_int code @ '')'')
     \<and> exit_code_of (''exit('' @ show_int code @ '')'') = code
     \<and> runAsync_loop (Suc n) wait r m =
           Some (Inl e, \<lparr>world = w, trace = trace ma @ [EvTick]\<rparr>)
     \<and> runSync_loop (Suc n) r m =
           Some (Inl e, \<lparr>world = w, trace = trace ma @ [EvTick]\<rparr>)
     \<and> runAsync fuel wait r' m' =
           Some (Inl e, r', \<lparr>world = w', trace = trace m' @ [EvStartMain]\<rparr>)
     \<and> runSync fuel r' m' =
           Some (Inl e, r', \<lparr>world = w', trace = trace m' @ [EvStartMain]\<rparr>)"
proof -
  have a: "proc_exit code s = (Inl (Error (''exit('' @ show_int code @ '')'')), s)"
    by (simp add: proc_exit_def)
  have b: "e = Error (''exit('' @ show_int code @ '')'')"
    using thrown by (simp add: proc_exit_def)
  have c: "runAsync_loop (Suc n) wait r m =
           Some (Inl e, \<lparr>world = w, trace = trace ma @ [EvTick]\<rparr>)"
    using cb tick by (simp add: loopOnce_def emit_def)
  have d: "runSync_loop (Suc n) r m =
           Some (Inl e, \<lparr>world = w, trace = trace ma @ [EvTick]\<rparr>)"
    using cb tick by (simp add: loopOnce_def emit_def)
  have f: "startMain r' m' = (Inl e, r', \<lparr>world = w', trace = trace m' @ [EvStartMain]\<rparr>)"
    using fresh start by (simp add: startMain_def emit_def)
  have g: "runAsync fuel wait r' m' =
           Some (Inl e, r', \<lparr>world = w', trace = trace m' @ [EvStartMain]\<rparr>)"
    by (simp add: runAsync_def f)
  have h: "runSync fuel r' m' =
           Some (Inl e, r', \<lparr>world = w', trace = trace m' @ [EvStartMain]\<rparr>)"
    by (simp add: runSync_def f)
  from a b exit_code_of_message c d g h show ?thesis by (intro conjI)
qed

text \<open>
  The hypotheses hold of the guest that calls \<open>proc_exit(3)\<close> in its tick, and of the one
  that calls it in \<open>go_start_main\<close>.
\<close>

theorem proc_exit_ends_run_witness:
  "runAsync_loop 1 (\<lambda>ms w. (None, w)) ((session_reactor (exit_tick 3))\<lparr>mainStarted := True\<rparr>)
       \<lparr>world = (0, mem_session []), trace = [EvStartMain, EvTick, EvYield]\<rparr> =
     Some (Inl (Error ''exit(3)''),
           \<lparr>world = (0, mem_session []), trace = [EvStartMain, EvTick, EvYield, EvTick]\<rparr>)
   \<and> runAsync 0 (\<lambda>ms w. (None, w))
       ((session_reactor (exit_tick 3))
          \<lparr>exports := (exports (session_reactor (exit_tick 3)))\<lparr>go_start_main := exit_tick 3\<rparr>\<rparr>)
       (start_machine (0, mem_session [])) =
     Some (Inl (Error ''exit(3)''),
           (session_reactor (exit_tick 3))
             \<lparr>exports := (exports (session_reactor (exit_tick 3)))\<lparr>go_start_main := exit_tick 3\<rparr>\<rparr>,
           \<lparr>world = (0, mem_session []), trace = [EvStartMain]\<rparr>)
   \<and> exit_code_of ''exit(3)'' = 3"
proof -
  let ?r = "(session_reactor (exit_tick 3))\<lparr>mainStarted := True\<rparr>"
  let ?m = "\<lparr>world = (0 :: nat, mem_session []), trace = [EvStartMain, EvTick, EvYield]\<rparr>"
  let ?r' = "(session_reactor (exit_tick 3))
          \<lparr>exports := (exports (session_reactor (exit_tick 3)))\<lparr>go_start_main := exit_tick 3\<rparr>\<rparr>"
  have cb: "call_onTick ?r ?m = (Inr (), ?m)"
    by (simp add: call_onTick_def session_reactor_simps)
  have tick: "go_tick (exports ?r) (world ?m) = (Inl (Error ''exit(3)''), (0, mem_session []))"
    by (simp add: session_reactor_simps exit_tick_simps)
  have thrown: "fst (proc_exit 3 (mem_session [])) = Inl (Error ''exit(3)'')"
    by (simp add: proc_exit_3)
  have fresh: "\<not> mainStarted ?r'" by (simp add: session_reactor_def)
  have start: "go_start_main (exports ?r') (world (start_machine (0 :: nat, mem_session [])))
               = (Inl (Error ''exit(3)''), (0, mem_session []))"
    by (simp add: start_machine_def exit_tick_simps)
  from proc_exit_ends_run [OF cb tick thrown fresh start, of 0 "\<lambda>ms w. (None, w)" 0]
  show ?thesis
    by (simp add: show_int_3 start_machine_def)
qed

section \<open>Facts about the handlers before and after setMemory\<close>

lemma encode_reactor: "encode (js ''reactor'') = [0x72, 0x65, 0x61, 0x63, 0x74, 0x6F, 0x72]"
  by (simp add: encode_def js_def utf8_of_def lone_def is_high_def is_low_def)

text \<open>
  C10, as stated, fails in its second half. After \<open>setMemory\<close> with a memory of two pages,
  \<open>random_get\<close> for the 65537 bytes from 0, a span that lies in that memory, throws a
  \<open>QuotaExceededError\<close>: \<open>crypto.getRandomValues\<close> refuses more than 65536 bytes.
\<close>

theorem random_get_quota_counterexample:
  "in_view 0 65537 (replicate 131072 (0 :: 8 word))
   \<and> random_get fixed_entropy 0 65537
         (setMemory_wasi (Some (replicate 131072 0)) (createMinimalWASI None None))
       = (Inl QuotaExceededError,
          setMemory_wasi (Some (replicate 131072 0)) (createMinimalWASI None None))"
proof -
  have a: "in_view 0 65537 (replicate 131072 (0 :: 8 word))" by (simp add: in_view_def)
  have m: "memory (setMemory_wasi (Some (replicate 131072 0)) (createMinimalWASI None None))
           = Some (replicate 131072 0)"
    by (simp add: setMemory_wasi_def)
  have l: "length (slice 0 (0 + 65537) (replicate 131072 (0 :: 8 word))) = 65537"
    using length_slice_in_view [of 65537 0 "replicate 131072 (0 :: 8 word)"] a by simp
  have "random_get fixed_entropy 0 65537
         (setMemory_wasi (Some (replicate 131072 0)) (createMinimalWASI None None))
       = (Inl QuotaExceededError,
          setMemory_wasi (Some (replicate 131072 0)) (createMinimalWASI None None))"
    by (simp only: random_get_result [OF m] l) simp
  with a show ?thesis by (intro conjI)
qed

text \<open>
  C10, amended. The session that \<open>createMinimalWASI\<close> returns has no memory. On a session
  with no memory, each of \<open>args_sizes_get\<close>, \<open>args_get\<close>, \<open>environ_sizes_get\<close>,
  \<open>environ_get\<close>, \<open>clock_time_get\<close>, \<open>fd_write\<close>, \<open>fd_fdstat_get\<close> and \<open>random_get\<close>,
  whatever its arguments, throws the \<open>TypeError\<close> of the null dereference instead of
  returning a code, and leaves the session as it was. After \<open>setMemory\<close> with a memory,
  each of them returns 0 when its arguments are in bounds: the two four-byte result slots of
  the size calls; every four-byte pointer slot and the encoded bytes of every string of
  \<open>args_get\<close> and \<open>environ_get\<close>; the eight-byte slot of \<open>clock_time_get\<close>; the
  \<open>iovs_len\<close> eight-byte iovec entries and the four-byte \<open>nwritten\<close> slot of \<open>fd_write\<close>;
  the 24 bytes of \<open>fd_fdstat_get\<close>; except \<open>random_get\<close>, which for a span in bounds
  returns 0 when the span has at most 65536 bytes and throws a \<open>QuotaExceededError\<close> when
  it has more.
\<close>

theorem handlers_before_and_after_setMemory:
  assumes before: "memory s = None"
      and "in_view argc_ptr 4 buf" "in_view argv_buf_size_ptr 4 buf"
      and "strings_fit (length buf) (args s) argv_ptr argv_buf_ptr"
      and "in_view environ_count_ptr 4 buf" "in_view environ_buf_size_ptr 4 buf"
      and "strings_fit (length buf) (envArray s) environ_ptr environ_buf_ptr"
      and "in_view time_ptr 8 buf"
      and "\<forall>j<nat iovs_len. in_view (iovs_ptr + int j * 8) 8 buf"
      and "in_view nwritten_ptr 4 buf"
      and "in_view stat_ptr 24 buf"
      and "0 \<le> buf_len" "in_view buf_ptr (nat buf_len) buf"
  shows "memory (createMinimalWASI opt_args opt_env) = None
     \<and> args_sizes_get argc_ptr argv_buf_size_ptr s = (Inl null_memory, s)
     \<and> args_get argv_ptr argv_buf_ptr s = (Inl null_memory, s)
     \<and> environ_sizes_get environ_count_ptr environ_buf_size_ptr s = (Inl null_memory, s)
     \<and> environ_get environ_ptr environ_buf_ptr s = (Inl null_memory, s)
     \<and> clock_time_get date_now performance_ns clock_id precision time_ptr s
         = (Inl null_memory, s)
     \<and> fd_write fd iovs_ptr iovs_len nwritten_ptr s = (Inl null_memory, s)
     \<and> fd_fdstat_get fd stat_ptr s = (Inl null_memory, s)
     \<and> random_get entropy buf_ptr buf_len s = (Inl null_memory, s)
     \<and> null_memory = TypeError ''Cannot read properties of null (reading 'buffer')''
     \<and> fst (args_sizes_get argc_ptr argv_buf_size_ptr (setMemory_wasi (Some buf) s)) = Inr 0
     \<and> fst (args_get argv_ptr argv_buf_ptr (setMemory_wasi (Some buf) s)) = Inr 0
     \<and> fst (environ_sizes_get environ_count_ptr environ_buf_size_ptr
              (setMemory_wasi (Some buf) s)) = Inr 0
     \<and> fst (environ_get environ_ptr environ_buf_ptr (setMemory_wasi (Some buf) s)) = Inr 0
     \<and> fst (clock_time_get date_now performance_ns clock_id precision time_ptr
              (setMemory_wasi (Some buf) s)) = Inr 0
     \<and> fst (fd_write fd iovs_ptr iovs_len nwritten_ptr (setMemory_wasi (Some buf) s)) = Inr 0
     \<and> fst (fd_fdstat_get fd stat_ptr (setMemory_wasi (Some buf) s)) = Inr 0
     \<and> fst (random_get entropy buf_ptr buf_len (setMemory_wasi (Some buf) s))
         = (if buf_len > 65536 then Inl QuotaExceededError else Inr 0)"
proof -
  let ?s = "setMemory_wasi (Some buf) s"
  have m: "memory ?s = Some buf" by (simp add: setMemory_wasi_def)
  have v: "args ?s = args s" "envArray ?s = envArray s" by (simp_all add: setMemory_wasi_def)
  have c0: "memory (createMinimalWASI opt_args opt_env) = None"
    by (simp add: createMinimalWASI_def)
  note n = null_memory_handlers [OF before]
  have a1: "fst (args_sizes_get argc_ptr argv_buf_size_ptr ?s) = Inr 0"
    using assms by (simp add: args_sizes_get_def on_buffer_fst [OF m] sizes_get_status)
  have a2: "fst (args_get argv_ptr argv_buf_ptr ?s) = Inr 0"
    using assms by (simp add: strings_get_status(1) [OF m] v)
  have a3: "fst (environ_sizes_get environ_count_ptr environ_buf_size_ptr ?s) = Inr 0"
    using assms by (simp add: environ_sizes_get_def on_buffer_fst [OF m] sizes_get_status)
  have a4: "fst (environ_get environ_ptr environ_buf_ptr ?s) = Inr 0"
    using assms by (simp add: strings_get_status(2) [OF m] v)
  have a5: "fst (clock_time_get date_now performance_ns clock_id precision time_ptr ?s) = Inr 0"
    using assms by (simp add: clock_status [OF m])
  have a6: "fst (fd_write fd iovs_ptr iovs_len nwritten_ptr ?s) = Inr 0"
    using assms by (simp add: fd_write_status [OF m])
  have a7: "fst (fd_fdstat_get fd stat_ptr ?s) = Inr 0"
    using assms by (simp add: fdstat_status [OF m])
  have a8: "fst (random_get entropy buf_ptr buf_len ?s)
         = (if buf_len > 65536 then Inl QuotaExceededError else Inr 0)"
    using assms by (intro random_get_status [OF m])
  show ?thesis
    by (intro conjI) (rule c0, rule n(1), rule n(2), rule n(3), rule n(4), rule n(5),
      rule n(6), rule n(7), rule n(8), rule null_memory_def,
      rule a1, rule a2, rule a3, rule a4, rule a5, rule a6, rule a7, rule a8)
qed

text \<open>
  The hypotheses hold of the session with the default arguments, given 64 bytes of memory.
\<close>

theorem handlers_before_and_after_setMemory_witness:
  "args_sizes_get 0 4 (createMinimalWASI None None)
     = (Inl null_memory, createMinimalWASI None None)
   \<and> fd_write 1 0 1 8 (createMinimalWASI None None)
     = (Inl null_memory, createMinimalWASI None None)
   \<and> fst (args_sizes_get 0 4
            (setMemory_wasi (Some (replicate 64 0)) (createMinimalWASI None None))) = Inr 0
   \<and> fst (args_get 0 8
            (setMemory_wasi (Some (replicate 64 0)) (createMinimalWASI None None))) = Inr 0
   \<and> fst (environ_get 0 8
            (setMemory_wasi (Some (replicate 64 0)) (createMinimalWASI None None))) = Inr 0
   \<and> fst (clock_time_get 1700000000000 5000000 0 1 16
            (setMemory_wasi (Some (replicate 64 0)) (createMinimalWASI None None))) = Inr 0
   \<and> fst (fd_write 1 0 1 8
            (setMemory_wasi (Some (replicate 64 0)) (createMinimalWASI None None))) = Inr 0
   \<and> fst (fd_fdstat_get 1 24
            (setMemory_wasi (Some (replicate 64 0)) (createMinimalWASI None None))) = Inr 0
   \<and> fst (random_get fixed_entropy 0 4
            (setMemory_wasi (Some (replicate 64 0)) (createMinimalWASI None None))) = Inr 0"
proof -
  let ?s = "createMinimalWASI None None"
  let ?buf = "replicate 64 (0 :: 8 word)"
  have before: "memory ?s = None" by (simp add: createMinimalWASI_def)
  have v: "args ?s = [js ''reactor'']" "envArray ?s = []"
    by (simp_all add: createMinimalWASI_def)
  have h1: "in_view 0 4 ?buf" "in_view 4 4 ?buf" "in_view 16 8 ?buf" "in_view 8 4 ?buf"
    "in_view 24 24 ?buf" "in_view 0 (nat 4) ?buf"
    by (simp_all add: in_view_def)
  have h2: "strings_fit (length ?buf) (args ?s) 0 8"
    by (simp add: v encode_reactor fits_def)
  have h3: "strings_fit (length ?buf) (envArray ?s) 0 8"
    by (simp add: v)
  have h4: "\<forall>j<nat 1. in_view (0 + int j * 8) 8 ?buf"
    by (simp add: in_view_def)
  have h5: "(0 :: int) \<le> 4" by simp
  from handlers_before_and_after_setMemory
    [OF before h1(1) h1(2) h2 h1(1) h1(2) h3 h1(3) h4 h1(4) h1(5) h5 h1(6),
     of None None 1700000000000 5000000 0 1 1 fixed_entropy]
  show ?thesis by simp
qed

end
